theory Spec2Isabelle
  imports Complex_Main
begin

section \<open>Python values\<close>

text \<open>
  The exceptions the modelled code can raise: \<^verbatim>\<open>np.argmin\<close> of an empty array
  (ValueError), a list index out of range (IndexError), a missing dictionary key (KeyError),
  \<^verbatim>\<open>int()\<close> of an infinite float (OverflowError).
\<close>

datatype py_error = ValueError | IndexError | KeyError | OverflowError

text \<open>
  Distances are numpy float64 values in the source, and \<^verbatim>\<open>(1 - distance) * 100\<close> is
  evaluated in float64. A float64 value is modelled as the real number it denotes, and an
  arithmetic operation rounds its exact result to the nearest double, ties to even: the
  result is the multiple of \<open>2 ^ (e - 52)\<close> nearest to \<open>x\<close>, where \<open>2 ^ e \<le> \<bar>x\<bar> < 2 ^ (e + 1)\<close>.
  The exponent is left unbounded in \<open>float64\<close>: a result of magnitude \<open>2 ^ 1024\<close> or more
  stands for an infinity (\<open>float64_inf\<close>); magnitudes below \<open>2 ^ - 1022\<close>, where doubles
  lose precision, do not arise in \<^verbatim>\<open>(1 - distance) * 100\<close> for a double
  \<^verbatim>\<open>distance\<close>. NaN is not modelled.
\<close>

definition pow2 :: "int \<Rightarrow> real" where
  "pow2 k = (if 0 \<le> k then 2 ^ nat k else 1 / 2 ^ nat (- k))"

definition float_exponent :: "real \<Rightarrow> int" where
  "float_exponent x = \<lfloor>log 2 \<bar>x\<bar>\<rfloor>"

definition round_half_even :: "real \<Rightarrow> int" where
  "round_half_even q =
     (let f = \<lfloor>q\<rfloor> in
      if q - of_int f < 1 / 2 then f
      else if 1 / 2 < q - of_int f then f + 1
      else if even f then f else f + 1)"

definition float64 :: "real \<Rightarrow> real" where
  "float64 x =
     (if x = 0 then 0
      else let ulp = pow2 (float_exponent x - 52)
           in of_int (round_half_even (x / ulp)) * ulp)"

definition float64_sub :: "real \<Rightarrow> real \<Rightarrow> real" where
  "float64_sub a b = float64 (a - b)"

definition float64_mul :: "real \<Rightarrow> real \<Rightarrow> real" where
  "float64_mul a b = float64 (a * b)"

definition float64_inf :: "real \<Rightarrow> bool" where
  "float64_inf x \<longleftrightarrow> pow2 1024 \<le> \<bar>x\<bar>"

text \<open>
  Python's \<^verbatim>\<open>int(x)\<close> on a float truncates toward zero, and raises OverflowError on
  an infinity.
\<close>

definition py_int :: "real \<Rightarrow> py_error + int" where
  "py_int x =
     (if float64_inf x then Inl OverflowError
      else Inr (if 0 \<le> x then \<lfloor>x\<rfloor> else \<lceil>x\<rceil>))"

text \<open>Decimal rendering of integers, as an f-string does.\<close>

function str_nat :: "nat \<Rightarrow> string" where
  "str_nat n =
     (if n < 10 then [''0123456789'' ! n]
      else str_nat (n div 10) @ [''0123456789'' ! (n mod 10)])"
  by pat_completeness auto
termination
  by (relation "measure id") auto

declare str_nat.simps [simp del]

definition str_int :: "int \<Rightarrow> string" where
  "str_int i = (if i < 0 then ''-'' @ str_nat (nat (- i)) else str_nat (nat i))"

section \<open>External capabilities\<close>

text \<open>
  The face locator and embedder (library \<^verbatim>\<open>face_recognition\<close>) is an external
  capability. A frame carries what the library returns on it.
  \<^verbatim>\<open>face_encodings\<close> is called twice on a frame: once inside
  \<^verbatim>\<open>detect_known_faces\<close>, and again in \<^verbatim>\<open>detect_and_mark\<close> after
  \<^verbatim>\<open>detect_known_faces\<close> has drawn its boxes and labels on the frame
  (\<^verbatim>\<open>draw_box\<close> defaults to True). The model keeps both results per face
  (\<open>encoding\<close>, \<open>encoding_again\<close>) and assumes nothing about how they relate.
  \<open>landmarks\<close> is the list returned by
  \<^verbatim>\<open>face_landmarks(rgb_image, [face_locations[i]])\<close>: a list of dictionaries
  from group names to point lists.
\<close>

type_synonym encoding = "real list"
type_synonym location = "int \<times> int \<times> int \<times> int"
type_synonym landmark_dict = "string \<rightharpoonup> (int \<times> int) list"

record face =
  location :: location
  encoding :: encoding
  encoding_again :: encoding
  landmarks :: "landmark_dict list"

record frame =
  image :: nat
  faces :: "face list"

text \<open>
  Modelled from the spec: \<^verbatim>\<open>face_recognition.face_distance\<close> is library code,
  absent from the repository. The spec (4.1) gives the metric: the Euclidean distance in
  embedding space between the probe and each gallery vector. All embeddings have one fixed
  dimension.
\<close>

definition euclid :: "encoding \<Rightarrow> encoding \<Rightarrow> real" where
  "euclid a b = sqrt (\<Sum>(x, y) \<leftarrow> zip a b. (x - y)\<^sup>2)"

definition face_distance :: "encoding list \<Rightarrow> encoding \<Rightarrow> real list" where
  "face_distance face_encodings face_to_compare =
     map (\<lambda>g. euclid g face_to_compare) face_encodings"

text \<open>
  Modelled from the spec: \<^verbatim>\<open>np.argmin\<close> is library code, absent from the
  repository. The spec (3) gives its result: the arg-min of the distances, ties broken by
  the first-encountered index. It is written as the left-to-right scan that replaces the
  best index only on a strictly smaller value; on an empty array numpy raises ValueError.
\<close>

fun argmin_scan :: "real \<Rightarrow> nat \<Rightarrow> nat \<Rightarrow> real list \<Rightarrow> nat" where
  "argmin_scan best bi i [] = bi"
| "argmin_scan best bi i (x # xs) =
     (if x < best then argmin_scan x i (Suc i) xs else argmin_scan best bi (Suc i) xs)"

definition argmin :: "real list \<Rightarrow> py_error + nat" where
  "argmin ds =
     (case ds of [] \<Rightarrow> Inl ValueError | d # rest \<Rightarrow> Inr (argmin_scan d 0 1 rest))"

section \<open>The recognizer: \<^verbatim>\<open>FaceRecognition.detect_known_faces\<close>\<close>

record FaceRecognition =
  known_face_names :: "string list"
  known_face_encodings :: "encoding list"

text \<open>The body of the loop over the detected faces: the label of one face.\<close>

definition face_name :: "FaceRecognition \<Rightarrow> real \<Rightarrow> face \<Rightarrow> py_error + string" where
  "face_name r tolerance f =
     (let face_distances = face_distance (known_face_encodings r) (encoding f) in
      case argmin face_distances of
        Inl e \<Rightarrow> Inl e
      | Inr best_match_index \<Rightarrow>
          if face_distances ! best_match_index < tolerance then
            (if best_match_index < length (known_face_names r)
             then Inr (known_face_names r ! best_match_index)
             else Inl IndexError)
          else Inr ''Unknown'')"

fun face_names_loop ::
  "FaceRecognition \<Rightarrow> real \<Rightarrow> face list \<Rightarrow> py_error + string list" where
  "face_names_loop r tolerance [] = Inr []"
| "face_names_loop r tolerance (f # fs) =
     (case face_name r tolerance f of
        Inl e \<Rightarrow> Inl e
      | Inr name \<Rightarrow>
          (case face_names_loop r tolerance fs of
             Inl e \<Rightarrow> Inl e
           | Inr names \<Rightarrow> Inr (name # names)))"

text \<open>
  \<^verbatim>\<open>detect_known_faces\<close> as \<^verbatim>\<open>detect_and_mark\<close> calls it, with \<^verbatim>\<open>scale_factor=1.0\<close>:
  the locations come back unscaled.
\<close>

definition detect_known_faces ::
  "FaceRecognition \<Rightarrow> frame \<Rightarrow> real \<Rightarrow> py_error + (location list \<times> string list)" where
  "detect_known_faces r img tolerance =
     (case face_names_loop r tolerance (faces img) of
        Inl e \<Rightarrow> Inl e
      | Inr face_names \<Rightarrow> Inr (map location (faces img), face_names))"

text \<open>The default \<^verbatim>\<open>tolerance=0.6\<close>: the double nearest to 6/10.\<close>

definition default_tolerance :: real where
  "default_tolerance = float64 (6 / 10)"

section \<open>The attendance manager: \<^verbatim>\<open>AttendanceManager.detect_and_mark\<close>\<close>

text \<open>
  The capture device: whether it is opened, and the results of the successive
  \<^verbatim>\<open>read()\<close> calls of a run (\<open>None\<close> when \<^verbatim>\<open>ret\<close> is false).
  The field \<^verbatim>\<open>retry_count\<close> of the manager is only ever reset to 0 and never
  read; it is left out. \<^verbatim>\<open>max_retries\<close> is a natural number: a negative budget
  gives no iteration, as 0 does.
\<close>

record VideoCapture =
  is_opened :: bool
  read_results :: "nat \<Rightarrow> frame option"

record AttendanceManager =
  recognizer :: FaceRecognition
  cap :: "VideoCapture option"
  max_retries :: nat

text \<open>
  The arguments of a call. \<open>has_callback\<close> says whether a callback was passed;
  \<open>timestamp\<close> is the text \<^verbatim>\<open>datetime.now().strftime('%Y%m%d_%H%M%S')\<close> yields when
  the snapshot is taken.
\<close>

record request =
  student_id :: string
  student_name :: string
  session_id :: "string option"
  has_callback :: bool
  timestamp :: string

record attendance =
  ar_student_id :: string
  ar_student_name :: string
  ar_session_id :: "string option"
  ar_photo_path :: string
  ar_confidence :: int

text \<open>
  The effects of a run: the number of frames read, the callback invocations, the seconds
  slept, the images written (\<^verbatim>\<open>cv2.imwrite\<close>) and the records handed to
  \<^verbatim>\<open>mark_attendance\<close>.
\<close>

record world =
  reads :: nat
  callbacks :: "(bool \<times> string) list"
  slept :: nat
  photos :: "(string \<times> nat) list"
  marked :: "attendance list"

definition fresh :: world where
  "fresh = \<lparr>reads = 0, callbacks = [], slept = 0, photos = [], marked = []\<rparr>"

datatype outcome = Returned bool string | Raised py_error

definition callback :: "request \<Rightarrow> bool \<times> string \<Rightarrow> world \<Rightarrow> world" where
  "callback rq ev w = (if has_callback rq then w\<lparr>callbacks := callbacks w @ [ev]\<rparr> else w)"

definition sleep :: "nat \<Rightarrow> world \<Rightarrow> world" where
  "sleep n w = w\<lparr>slept := slept w + n\<rparr>"

text \<open>
  The expression \<^verbatim>\<open>max(0, min(100, int((1 - distance) * 100)))\<close>.
\<close>

definition confidence_of :: "real \<Rightarrow> py_error + int" where
  "confidence_of distance =
     (case py_int (float64_mul (float64_sub 1 distance) 100) of
        Inl e \<Rightarrow> Inl e
      | Inr i \<Rightarrow> Inr (max 0 (min 100 i)))"

definition min_confidence :: int where
  "min_confidence = 50"

text \<open>The messages; \<open>attempt\<close> is the loop variable, counted from 0.\<close>

definition pose_msg :: "nat \<Rightarrow> nat \<Rightarrow> string" where
  "pose_msg attempt retries =
     ''Face not frontal enough (Attempt '' @ str_nat (attempt + 1) @ ''/'' @ str_nat retries
       @ ''). Please adjust position.''"

definition success_msg :: "string \<Rightarrow> int \<Rightarrow> nat \<Rightarrow> string" where
  "success_msg name confidence attempt =
     ''Attendance marked for '' @ name @ '' (Confidence: '' @ str_int confidence
       @ ''% | Attempt '' @ str_nat (attempt + 1) @ '')''"

definition retry_msg :: "int \<Rightarrow> nat \<Rightarrow> nat \<Rightarrow> string" where
  "retry_msg confidence attempt retries =
     ''Confidence too low ('' @ str_int confidence @ ''%). Retrying... (''
       @ str_nat (attempt + 2) @ ''/'' @ str_nat retries @ '')''"

definition low_confidence_msg :: "int \<Rightarrow> string" where
  "low_confidence_msg confidence =
     ''Face recognized but confidence too low ('' @ str_int confidence
       @ ''%). Minimum required: '' @ str_int min_confidence @ ''%. No more retries.''"

definition capture_msg :: string where
  "capture_msg = ''Failed to capture frame.''"

definition not_recognized_msg :: string where
  "not_recognized_msg = ''Face not recognized after maximum retries.''"

definition not_started_msg :: string where
  "not_started_msg = ''Camera not started.''"

text \<open>
  The landmark test: \<^verbatim>\<open>len(d['left_eye']) < 6 or len(d['right_eye']) < 6\<close>, evaluated left
  to right; a missing key raises KeyError.
\<close>

definition eyes_not_frontal :: "landmark_dict \<Rightarrow> py_error + bool" where
  "eyes_not_frontal d =
     (case d ''left_eye'' of
        None \<Rightarrow> Inl KeyError
      | Some left_eye \<Rightarrow>
          if length left_eye < 6 then Inr True
          else (case d ''right_eye'' of
                  None \<Rightarrow> Inl KeyError
                | Some right_eye \<Rightarrow> Inr (length right_eye < 6)))"

text \<open>
  The body of the loop over the face locations, for the face at one index: distance,
  confidence, landmark check, accept or reject. \<open>None\<close> means the loop goes on.
\<close>

definition check_face ::
  "AttendanceManager \<Rightarrow> request \<Rightarrow> nat \<Rightarrow> frame \<Rightarrow> face \<Rightarrow> world \<Rightarrow> outcome option \<times> world" where
  "check_face m rq attempt fr f w =
     (let face_distances =
            face_distance (known_face_encodings (recognizer m)) (encoding_again f) in
      case argmin face_distances of
        Inl e \<Rightarrow> (Some (Raised e), w)
      | Inr best_match_index \<Rightarrow>
          let distance = face_distances ! best_match_index in
          case confidence_of distance of
            Inl e \<Rightarrow> (Some (Raised e), w)
          | Inr confidence \<Rightarrow>
              let face_landmarks = landmarks f
              in if face_landmarks = [] then (None, w)
                 else
                   (case eyes_not_frontal (hd face_landmarks) of
                      Inl e \<Rightarrow> (Some (Raised e), w)
                    | Inr True \<Rightarrow>
                        (None, callback rq (False, pose_msg attempt (max_retries m)) w)
                    | Inr False \<Rightarrow>
                        if confidence \<ge> min_confidence then
                          let photo_path =
                                ''attendance_photos/'' @ student_id rq @ ''_'' @ timestamp rq
                                  @ ''.jpg'';
                              w1 = w\<lparr>photos := photos w @ [(photo_path, image fr)]\<rparr>;
                              w2 = w1\<lparr>marked := marked w1 @
                                     [\<lparr>ar_student_id = student_id rq,
                                       ar_student_name = student_name rq,
                                       ar_session_id = session_id rq,
                                       ar_photo_path = photo_path,
                                       ar_confidence = confidence\<rparr>]\<rparr>;
                              msg = success_msg (student_name rq) confidence attempt
                          in (Some (Returned True msg), callback rq (True, msg) w2)
                        else if int attempt < int (max_retries m) - 1 then
                          (None,
                           sleep 1
                             (callback rq
                                (False, retry_msg confidence attempt (max_retries m)) w))
                        else
                          (Some (Returned False (low_confidence_msg confidence)),
                           callback rq (False, low_confidence_msg confidence) w)))"

text \<open>
  The loop \<^verbatim>\<open>for i, (top, right, bottom, left) in enumerate(face_locations)\<close>, with its
  guard \<^verbatim>\<open>if name == student_name\<close> on the name of the enclosing loop.
\<close>

fun faces_loop ::
  "AttendanceManager \<Rightarrow> request \<Rightarrow> nat \<Rightarrow> frame \<Rightarrow> string \<Rightarrow> face list \<Rightarrow> world
     \<Rightarrow> outcome option \<times> world" where
  "faces_loop m rq attempt fr name [] w = (None, w)"
| "faces_loop m rq attempt fr name (f # fs) w =
     (if name = student_name rq then
        (case check_face m rq attempt fr f w of
           (Some out, w') \<Rightarrow> (Some out, w')
         | (None, w') \<Rightarrow> faces_loop m rq attempt fr name fs w')
      else faces_loop m rq attempt fr name fs w)"

text \<open>The loop \<^verbatim>\<open>for name in face_names\<close>.\<close>

fun names_loop ::
  "AttendanceManager \<Rightarrow> request \<Rightarrow> nat \<Rightarrow> frame \<Rightarrow> string list \<Rightarrow> world
     \<Rightarrow> outcome option \<times> world" where
  "names_loop m rq attempt fr [] w = (None, w)"
| "names_loop m rq attempt fr (name # names) w =
     (if name = student_name rq then
        (case faces_loop m rq attempt fr name (faces fr) w of
           (Some out, w') \<Rightarrow> (Some out, w')
         | (None, w') \<Rightarrow> names_loop m rq attempt fr names w')
      else names_loop m rq attempt fr names w)"

text \<open>One iteration of \<^verbatim>\<open>for attempt in range(self.max_retries)\<close>.\<close>

definition one_attempt ::
  "AttendanceManager \<Rightarrow> VideoCapture \<Rightarrow> request \<Rightarrow> nat \<Rightarrow> world \<Rightarrow> outcome option \<times> world" where
  "one_attempt m cam rq attempt w =
     (let w1 = w\<lparr>reads := Suc (reads w)\<rparr> in
      case read_results cam (reads w) of
        None \<Rightarrow> (Some (Returned False capture_msg), callback rq (False, capture_msg) w1)
      | Some fr \<Rightarrow>
          (case detect_known_faces (recognizer m) fr default_tolerance of
             Inl e \<Rightarrow> (Some (Raised e), w1)
           | Inr (face_locations, face_names) \<Rightarrow> names_loop m rq attempt fr face_names w1))"

fun attempts_loop ::
  "AttendanceManager \<Rightarrow> VideoCapture \<Rightarrow> request \<Rightarrow> nat list \<Rightarrow> world \<Rightarrow> outcome option \<times> world" where
  "attempts_loop m cam rq [] w = (None, w)"
| "attempts_loop m cam rq (attempt # rest) w =
     (case one_attempt m cam rq attempt w of
        (Some out, w') \<Rightarrow> (Some out, w')
      | (None, w') \<Rightarrow> attempts_loop m cam rq rest w')"

definition detect_and_mark :: "AttendanceManager \<Rightarrow> request \<Rightarrow> world \<Rightarrow> outcome \<times> world" where
  "detect_and_mark m rq w =
     (case cap m of
        None \<Rightarrow> (Returned False not_started_msg, callback rq (False, not_started_msg) w)
      | Some cam \<Rightarrow>
          if \<not> is_opened cam then
            (Returned False not_started_msg, callback rq (False, not_started_msg) w)
          else
            (case attempts_loop m cam rq [0..<max_retries m] w of
               (Some out, w') \<Rightarrow> (out, w')
             | (None, w') \<Rightarrow>
                 (Returned False not_recognized_msg,
                  callback rq (False, not_recognized_msg) w')))"

section \<open>Auxiliary notions for the proofs\<close>

text \<open>
  The snapshot path and the record that \<^verbatim>\<open>detect_and_mark\<close> builds on acceptance;
  what it means that the gate's confidence for a face is \<open>c\<close>, its eye groups pass
  the landmark test and \<open>c\<close> reaches the threshold;
  and the two summaries of what a piece of the run may do: either it accepts on one of the
  faces, writing one snapshot and one record with that face's confidence, or it leaves
  snapshots and records as they were.
\<close>

definition snapshot_path :: "request \<Rightarrow> string" where
  "snapshot_path rq = ''attendance_photos/'' @ student_id rq @ ''_'' @ timestamp rq @ ''.jpg''"

definition record_of :: "request \<Rightarrow> int \<Rightarrow> attendance" where
  "record_of rq c =
     \<lparr>ar_student_id = student_id rq, ar_student_name = student_name rq,
      ar_session_id = session_id rq, ar_photo_path = snapshot_path rq, ar_confidence = c\<rparr>"

definition accepts :: "AttendanceManager \<Rightarrow> face \<Rightarrow> int \<Rightarrow> bool" where
  "accepts m f c \<longleftrightarrow>
     (\<exists>b. argmin (face_distance (known_face_encodings (recognizer m)) (encoding_again f))
            = Inr b \<and>
          confidence_of
            (face_distance (known_face_encodings (recognizer m)) (encoding_again f) ! b)
            = Inr c) \<and>
     landmarks f \<noteq> [] \<and> eyes_not_frontal (hd (landmarks f)) = Inr False \<and>
     min_confidence \<le> c"

definition step_ok ::
  "AttendanceManager \<Rightarrow> request \<Rightarrow> nat \<Rightarrow> frame \<Rightarrow> face list \<Rightarrow> world \<Rightarrow> outcome option
     \<Rightarrow> world \<Rightarrow> bool" where
  "step_ok m rq a fr fs w r w' \<longleftrightarrow>
     reads w' = reads w \<and>
     ((\<exists>c f. f \<in> set fs \<and> accepts m f c \<and>
           r = Some (Returned True (success_msg (student_name rq) c a)) \<and>
           photos w' = photos w @ [(snapshot_path rq, image fr)] \<and>
           marked w' = marked w @ [record_of rq c]) \<or>
      ((\<forall>msg. r \<noteq> Some (Returned True msg)) \<and>
           photos w' = photos w \<and> marked w' = marked w))"

definition run_ok ::
  "AttendanceManager \<Rightarrow> VideoCapture \<Rightarrow> request \<Rightarrow> world \<Rightarrow> outcome option \<Rightarrow> world
     \<Rightarrow> bool" where
  "run_ok m cam rq w r w' \<longleftrightarrow>
     ((\<exists>c fr f. read_results cam (reads w' - 1) = Some fr \<and> f \<in> set (faces fr) \<and>
           accepts m f c \<and>
           r = Some (Returned True (success_msg (student_name rq) c (reads w' - 1))) \<and>
           photos w' = photos w @ [(snapshot_path rq, image fr)] \<and>
           marked w' = marked w @ [record_of rq c]) \<or>
      ((\<forall>msg. r \<noteq> Some (Returned True msg)) \<and>
           photos w' = photos w \<and> marked w' = marked w))"

text \<open>
  The gate applied to every face of a list in order, whatever the faces are labelled, until
  one of them ends the run; and that pass over all the faces of a frame, repeated a given
  number of times.
\<close>

fun gate_every_face ::
  "AttendanceManager \<Rightarrow> request \<Rightarrow> nat \<Rightarrow> frame \<Rightarrow> face list \<Rightarrow> world
     \<Rightarrow> outcome option \<times> world" where
  "gate_every_face m rq attempt fr [] w = (None, w)"
| "gate_every_face m rq attempt fr (f # fs) w =
     (case check_face m rq attempt fr f w of
        (Some out, w') \<Rightarrow> (Some out, w')
      | (None, w') \<Rightarrow> gate_every_face m rq attempt fr fs w')"

fun gate_rounds ::
  "AttendanceManager \<Rightarrow> request \<Rightarrow> nat \<Rightarrow> frame \<Rightarrow> nat \<Rightarrow> world
     \<Rightarrow> outcome option \<times> world" where
  "gate_rounds m rq attempt fr 0 w = (None, w)"
| "gate_rounds m rq attempt fr (Suc n) w =
     (case gate_every_face m rq attempt fr (faces fr) w of
        (Some out, w') \<Rightarrow> (Some out, w')
      | (None, w') \<Rightarrow> gate_rounds m rq attempt fr n w')"

section \<open>Example inputs\<close>

text \<open>
  Galleries with one-dimensional embeddings, faces with given embeddings and landmarks, a
  camera that delivers a given list of frames and then fails, and a request for alice.
\<close>

definition alice_only :: FaceRecognition where
  "alice_only = \<lparr>known_face_names = [''alice''], known_face_encodings = [[0]]\<rparr>"

definition probe :: "real \<Rightarrow> real \<Rightarrow> landmark_dict list \<Rightarrow> face" where
  "probe x y lms =
     \<lparr>location = (0, 0, 0, 0), encoding = [x], encoding_again = [y], landmarks = lms\<rparr>"

definition gallery2 :: FaceRecognition where
  "gallery2 = \<lparr>known_face_names = [''alice'', ''bob''], known_face_encodings = [[0], [10]]\<rparr>"

definition frontal :: landmark_dict where
  "frontal = [''left_eye'' \<mapsto> replicate 6 (0, 0), ''right_eye'' \<mapsto> replicate 6 (0, 0)]"

definition turned :: landmark_dict where
  "turned = [''left_eye'' \<mapsto> replicate 6 (0, 0), ''right_eye'' \<mapsto> replicate 5 (0, 0)]"

definition cam_of :: "frame list \<Rightarrow> VideoCapture" where
  "cam_of frames =
     \<lparr>is_opened = True,
      read_results = (\<lambda>k. if k < length frames then Some (frames ! k) else None)\<rparr>"

definition manager :: "FaceRecognition \<Rightarrow> frame list \<Rightarrow> nat \<Rightarrow> AttendanceManager" where
  "manager r frames n = \<lparr>recognizer = r, cap = Some (cam_of frames), max_retries = n\<rparr>"

definition alice_rq :: request where
  "alice_rq = \<lparr>student_id = ''42'', student_name = ''alice'', session_id = None,
      has_callback = True, timestamp = ''20240101_090000''\<rparr>"

definition shot :: "nat \<Rightarrow> face list \<Rightarrow> frame" where
  "shot n fs = \<lparr>image = n, faces = fs\<rparr>"

section \<open>Float arithmetic and the confidence formula\<close>

lemma pow2_powr: "pow2 k = 2 powr (of_int k)"
  by (simp add: pow2_def powr_int)

lemma pow2_pos: "0 < pow2 k"
  by (simp add: pow2_powr)

lemma float_exponent_eq:
  assumes "pow2 e \<le> \<bar>x\<bar>" and "\<bar>x\<bar> < pow2 (e + 1)"
  shows "float_exponent x = e"
proof -
  from assms(1) pow2_pos [of e] have pos: "0 < \<bar>x\<bar>" by linarith
  have "\<lfloor>log 2 \<bar>x\<bar>\<rfloor> = e \<longleftrightarrow> 2 powr (of_int e) \<le> \<bar>x\<bar> \<and> \<bar>x\<bar> < 2 powr (of_int (e + 1))"
    using pos by (simp add: floor_log_eq_powr_iff)
  with assms show ?thesis by (simp add: float_exponent_def pow2_powr)
qed

lemma float64_at:
  assumes "pow2 e \<le> \<bar>x\<bar>" and "\<bar>x\<bar> < pow2 (e + 1)"
  shows "float64 x = of_int (round_half_even (x / pow2 (e - 52))) * pow2 (e - 52)"
proof -
  from assms(1) pow2_pos [of e] have "x \<noteq> 0" by auto
  with float_exponent_eq [OF assms] show ?thesis by (simp add: float64_def Let_def)
qed

lemma round_half_even_near: "\<bar>of_int (round_half_even q) - q\<bar> \<le> 1 / 2"
  unfolding round_half_even_def Let_def by (auto simp: abs_if) linarith+

lemma float_exponent_le: "x \<noteq> 0 \<Longrightarrow> pow2 (float_exponent x) \<le> \<bar>x\<bar>"
proof -
  assume "x \<noteq> 0"
  then have pos: "0 < \<bar>x\<bar>" by simp
  have "of_int \<lfloor>log 2 \<bar>x\<bar>\<rfloor> \<le> log 2 \<bar>x\<bar>" by simp
  then have "2 powr (of_int \<lfloor>log 2 \<bar>x\<bar>\<rfloor>) \<le> 2 powr (log 2 \<bar>x\<bar>)"
    by (simp only: powr_le_cancel_iff) 
  with pos show ?thesis by (simp add: float_exponent_def pow2_powr)
qed

lemma float64_le_twice: "\<bar>float64 x\<bar> \<le> 2 * \<bar>x\<bar>"
proof (cases "x = 0")
  case True
  then show ?thesis by (simp add: float64_def)
next
  case False
  let ?e = "float_exponent x"
  let ?u = "pow2 (?e - 52)"
  let ?q = "x / ?u"
  have u: "0 < ?u" by (rule pow2_pos)
  have "pow2 ?e = ?u * 2 ^ 52"
    by (simp add: pow2_powr powr_diff)
  with float_exponent_le [OF False] have "?u * 2 ^ 52 \<le> \<bar>x\<bar>" by simp
  with u have "?u \<le> \<bar>x\<bar>"
    by (smt (verit) mult_le_cancel_left1 one_le_numeral one_le_power)
  with u have q1: "1 \<le> \<bar>?q\<bar>" by (simp add: field_simps)
  from round_half_even_near [of ?q] have "\<bar>of_int (round_half_even ?q)\<bar> \<le> \<bar>?q\<bar> + 1 / 2"
    by linarith
  with q1 have "\<bar>real_of_int (round_half_even ?q)\<bar> \<le> 2 * \<bar>?q\<bar>" by linarith
  also from u have "\<bar>?q\<bar> = \<bar>x\<bar> / ?u" by simp
  finally have "\<bar>real_of_int (round_half_even ?q)\<bar> * ?u \<le> 2 * \<bar>x\<bar>"
    using u by (simp add: pos_le_divide_eq)
  moreover from False u have "\<bar>float64 x\<bar> = \<bar>real_of_int (round_half_even ?q)\<bar> * ?u"
    by (simp add: float64_def Let_def abs_mult)
  ultimately show ?thesis by simp
qed

lemma scaled_finite:
  assumes "\<bar>d\<bar> \<le> pow2 1000"
  shows "\<not> float64_inf (float64_mul (float64_sub 1 d) 100)"
proof -
  have "\<bar>float64_sub 1 d\<bar> \<le> 2 * \<bar>1 - d\<bar>"
    unfolding float64_sub_def by (rule float64_le_twice)
  also have "\<dots> \<le> 2 * (1 + pow2 1000)"
    using assms abs_triangle_ineq4 [of 1 d] by simp
  finally have s: "\<bar>float64_sub 1 d\<bar> \<le> 2 * (1 + pow2 1000)" .
  have "\<bar>float64_mul (float64_sub 1 d) 100\<bar> \<le> 2 * \<bar>float64_sub 1 d * 100\<bar>"
    unfolding float64_mul_def by (rule float64_le_twice)
  also have "\<dots> \<le> 2 * (2 * (1 + pow2 1000) * 100)" using s by (simp add: abs_mult)
  also have "\<dots> < pow2 1024" by (simp add: pow2_def)
  finally show ?thesis by (simp add: float64_inf_def)
qed

lemma float64_values:
  "float64 1 = 1" "float64 100 = 100"
  "float64 (1 / 2) = 1 / 2" "float64 50 = 50"
  "float64 (3 / 4) = 3 / 4" "float64 75 = 75"
  "float64 (7 / 8) = 7 / 8" "float64 (175 / 2) = 175 / 2"
  "float64 (7 / 16) = 7 / 16" "float64 (175 / 4) = 175 / 4"
  using float64_at [of 0 1] float64_at [of 6 100]
    float64_at [of "-1" "1 / 2"] float64_at [of 5 50]
    float64_at [of "-1" "3 / 4"] float64_at [of 6 75]
    float64_at [of "-1" "7 / 8"] float64_at [of 6 "175 / 2"]
    float64_at [of "-2" "7 / 16"] float64_at [of 5 "175 / 4"]
  by (simp_all add: pow2_def round_half_even_def)

lemma default_tolerance_value: "default_tolerance = 5404319552844595 / 9007199254740992"
  unfolding default_tolerance_def
  using float64_at [of "-1" "6 / 10"] by (simp add: pow2_def round_half_even_def)

lemma confidence_values:
  "confidence_of 0 = Inr 100"
  "confidence_of (1 / 8) = Inr 87"
  "confidence_of (1 / 4) = Inr 75"
  "confidence_of (1 / 2) = Inr 50"
  "confidence_of (9 / 16) = Inr 43"
  by (simp_all add: confidence_of_def py_int_def float64_inf_def float64_sub_def float64_mul_def
      float64_values pow2_def)

lemma float64_seven_hundredths:
  "float64 (7 / 100) = 1261007895663739 / 18014398509481984"
  "float64 (16753390613818245 / 18014398509481984) = 4188347653454561 / 4503599627370496"
  "float64 (104708691336364025 / 1125899906842624) = 93"
  using float64_at [of "-4" "7 / 100"]
    float64_at [of "-1" "16753390613818245 / 18014398509481984"]
    float64_at [of 6 "104708691336364025 / 1125899906842624"]
  by (simp_all add: pow2_def round_half_even_def)

lemma trunc_floor_clamp:
  "max 0 (min 100 (if 0 \<le> x then \<lfloor>x\<rfloor> else \<lceil>x::real\<rceil>)) = max 0 (min 100 \<lfloor>x\<rfloor>)"
proof (cases "0 \<le> x")
  case True
  then show ?thesis by simp
next
  case False
  then have c: "\<lceil>x\<rceil> \<le> 0"
    by (simp add: ceiling_le_iff)
  from False have f: "\<lfloor>x\<rfloor> \<le> 0"
    by (simp add: floor_le_iff)
  with c False show ?thesis by simp
qed

text \<open>
  C1 (as amended): for a distance of magnitude at most \<open>2 ^ 1000\<close> the confidence is the
  float64 value of \<open>(1 - d) * 100\<close>, each of the two operations rounded to the nearest
  double, then truncated, not rounded to the nearest integer, and clamped to 0..100. Under
  the clamp, truncation toward zero and rounding down agree.
\<close>

theorem confidence_truncates:
  assumes "\<bar>d\<bar> \<le> 2 ^ 1000"
  shows "confidence_of d = Inr (max 0 (min 100 \<lfloor>float64_mul (float64_sub 1 d) 100\<rfloor>))"
proof -
  from assms have "\<bar>d\<bar> \<le> pow2 1000" by (simp add: pow2_def)
  then have "\<not> float64_inf (float64_mul (float64_sub 1 d) 100)"
    by (rule scaled_finite)
  then show ?thesis
    by (simp add: confidence_of_def py_int_def trunc_floor_clamp)
qed

text \<open>
  C1 (as amended), witness: at the double nearest to 0.07 the float64 product is exactly 93
  and the confidence is 93, where the exact product would truncate to 92.
\<close>

theorem confidence_truncates_witness:
  "\<bar>float64 (7 / 100)\<bar> \<le> 2 ^ 1000 \<and>
   max 0 (min 100 \<lfloor>(1 - float64 (7 / 100)) * 100\<rfloor>) = 92 \<and>
   confidence_of (float64 (7 / 100)) = Inr 93"
proof -
  have h: "\<bar>float64 (7 / 100)\<bar> \<le> 2 ^ 1000"
    by (simp add: float64_seven_hundredths)
  have e: "max 0 (min 100 \<lfloor>(1 - float64 (7 / 100)) * 100\<rfloor>) = 92"
    by (simp add: float64_seven_hundredths)
  from confidence_truncates [OF h]
  have "confidence_of (float64 (7 / 100)) = Inr 93"
    by (simp add: float64_sub_def float64_mul_def float64_seven_hundredths)
  with h e show ?thesis by blast
qed

text \<open>
  C1 (as stated) fails: the gallery entry \<open>[0]\<close> and the probe \<open>[1/8]\<close> are at distance
  \<open>1/8\<close>, a double; the scaled value is exactly 87.5 in float64, the code yields 87 and
  the rounded formula 88.
\<close>

theorem confidence_round_counterexample:
  "face_distance [[0]] [1 / 8] = [1 / 8] \<and>
   float64 (1 / 8) = 1 / 8 \<and>
   float64_mul (float64_sub 1 (1 / 8)) 100 = 175 / 2 \<and>
   confidence_of (1 / 8) \<noteq> Inr (max 0 (min 100 (round (175 / 2 :: real))))"
  using float64_at [of "-3" "1 / 8"]
  by (simp add: face_distance_def euclid_def confidence_values round_def float64_sub_def
      float64_mul_def float64_values pow2_def round_half_even_def)

section \<open>The matcher\<close>

lemma argmin_scan_spec:
  "(argmin_scan best bi i xs = bi \<and> (\<forall>x\<in>set xs. best \<le> x)) \<or>
   (\<exists>j<length xs. argmin_scan best bi i xs = i + j \<and> xs ! j < best \<and>
        (\<forall>k<length xs. xs ! j \<le> xs ! k) \<and> (\<forall>k<j. xs ! j < xs ! k))"
proof (induction xs arbitrary: best bi i)
  case Nil
  then show ?case by simp
next
  case (Cons x xs)
  show ?case
  proof (cases "x < best")
    case True
    from Cons.IH [of x i "Suc i"] show ?thesis
    proof
      assume a: "argmin_scan x i (Suc i) xs = i \<and> (\<forall>y\<in>set xs. x \<le> y)"
      have "0 < length (x # xs) \<and> argmin_scan best bi i (x # xs) = i + 0 \<and> (x # xs) ! 0 < best \<and>
        (\<forall>k<length (x # xs). (x # xs) ! 0 \<le> (x # xs) ! k) \<and> (\<forall>k<0. (x # xs) ! 0 < (x # xs) ! k)"
        using a True by (auto simp: nth_Cons split: nat.splits)
      then show ?thesis by blast
    next
      assume "\<exists>j<length xs. argmin_scan x i (Suc i) xs = Suc i + j \<and> xs ! j < x \<and>
        (\<forall>k<length xs. xs ! j \<le> xs ! k) \<and> (\<forall>k<j. xs ! j < xs ! k)"
      then obtain j where j: "j < length xs" "argmin_scan x i (Suc i) xs = Suc i + j" "xs ! j < x"
        "\<forall>k<length xs. xs ! j \<le> xs ! k" "\<forall>k<j. xs ! j < xs ! k" by blast
      have "Suc j < length (x # xs) \<and> argmin_scan best bi i (x # xs) = i + Suc j \<and> (x # xs) ! Suc j < best \<and>
        (\<forall>k<length (x # xs). (x # xs) ! Suc j \<le> (x # xs) ! k) \<and> (\<forall>k<Suc j. (x # xs) ! Suc j < (x # xs) ! k)"
        using j True by (auto simp: nth_Cons split: nat.splits)
      then show ?thesis by blast
    qed
  next
    case False
    from Cons.IH [of best bi "Suc i"] show ?thesis
    proof
      assume "argmin_scan best bi (Suc i) xs = bi \<and> (\<forall>y\<in>set xs. best \<le> y)"
      with False show ?thesis by auto
    next
      assume "\<exists>j<length xs. argmin_scan best bi (Suc i) xs = Suc i + j \<and> xs ! j < best \<and>
        (\<forall>k<length xs. xs ! j \<le> xs ! k) \<and> (\<forall>k<j. xs ! j < xs ! k)"
      then obtain j where j: "j < length xs" "argmin_scan best bi (Suc i) xs = Suc i + j" "xs ! j < best"
        "\<forall>k<length xs. xs ! j \<le> xs ! k" "\<forall>k<j. xs ! j < xs ! k" by blast
      have "Suc j < length (x # xs) \<and> argmin_scan best bi i (x # xs) = i + Suc j \<and> (x # xs) ! Suc j < best \<and>
        (\<forall>k<length (x # xs). (x # xs) ! Suc j \<le> (x # xs) ! k) \<and> (\<forall>k<Suc j. (x # xs) ! Suc j < (x # xs) ! k)"
        using j False by (auto simp: nth_Cons split: nat.splits)
      then show ?thesis by blast
    qed
  qed
qed

lemma argmin_first_min:
  assumes "ds \<noteq> []"
  shows "\<exists>b<length ds. argmin ds = Inr b \<and> (\<forall>k<length ds. ds ! b \<le> ds ! k) \<and> (\<forall>k<b. ds ! b < ds ! k)"
proof -
  from assms obtain d rest where ds: "ds = d # rest" by (cases ds) auto
  from argmin_scan_spec [of d 0 1 rest] show ?thesis
  proof
    assume a: "argmin_scan d 0 1 rest = 0 \<and> (\<forall>x\<in>set rest. d \<le> x)"
    have "0 < length ds \<and> argmin ds = Inr 0 \<and> (\<forall>k<length ds. ds ! 0 \<le> ds ! k) \<and> (\<forall>k<0. ds ! 0 < ds ! k)"
      using a ds by (auto simp: argmin_def nth_Cons split: nat.splits)
    then show ?thesis by blast
  next
    assume "\<exists>j<length rest. argmin_scan d 0 1 rest = 1 + j \<and> rest ! j < d \<and>
        (\<forall>k<length rest. rest ! j \<le> rest ! k) \<and> (\<forall>k<j. rest ! j < rest ! k)"
    then obtain j where j: "j < length rest" "argmin_scan d 0 1 rest = 1 + j" "rest ! j < d"
        "\<forall>k<length rest. rest ! j \<le> rest ! k" "\<forall>k<j. rest ! j < rest ! k" by blast
    have "Suc j < length ds \<and> argmin ds = Inr (Suc j) \<and> (\<forall>k<length ds. ds ! Suc j \<le> ds ! k) \<and> (\<forall>k<Suc j. ds ! Suc j < ds ! k)"
      using j ds by (auto simp: argmin_def nth_Cons split: nat.splits)
    then show ?thesis by blast
  qed
qed

lemma argmin_strict_min:
  assumes "k < length ds" and "\<forall>j<length ds. j \<noteq> k \<longrightarrow> ds ! k < ds ! j"
  shows "argmin ds = Inr k"
proof -
  from assms(1) have "ds \<noteq> []" by auto
  from argmin_first_min [OF this] obtain b where b: "b < length ds" "argmin ds = Inr b"
    "\<forall>j<length ds. ds ! b \<le> ds ! j" by blast
  have "b = k"
  proof (rule ccontr)
    assume "b \<noteq> k"
    with assms(2) b(1) have "ds ! k < ds ! b" by blast
    moreover from b(3) assms(1) have "ds ! b \<le> ds ! k" by blast
    ultimately show False by simp
  qed
  with b(2) show ?thesis by simp
qed





text \<open>
  C8: when the probe's distance to entry \<open>k\<close> is strictly below its distance to every
  other entry, the matcher selects \<open>k\<close>; on a non-empty gallery it selects an entry of
  minimum distance, and among those the one of smallest index (every earlier entry is
  strictly farther).
\<close>

theorem matcher_selects_first_minimum:
  "(k < length encs \<and>
      (\<forall>j<length encs. j \<noteq> k \<longrightarrow> face_distance encs e ! k < face_distance encs e ! j)
      \<longrightarrow> argmin (face_distance encs e) = Inr k) \<and>
   (encs \<noteq> [] \<longrightarrow>
      (\<exists>b<length encs. argmin (face_distance encs e) = Inr b \<and>
         (\<forall>j<length encs. face_distance encs e ! b \<le> face_distance encs e ! j) \<and>
         (\<forall>j<b. face_distance encs e ! b < face_distance encs e ! j)))"
proof (intro conjI impI)
  assume a: "k < length encs \<and>
      (\<forall>j<length encs. j \<noteq> k \<longrightarrow> face_distance encs e ! k < face_distance encs e ! j)"
  have len: "length (face_distance encs e) = length encs"
    by (simp add: face_distance_def)
  show "argmin (face_distance encs e) = Inr k"
    by (rule argmin_strict_min) (use a len in simp_all)
next
  assume "encs \<noteq> []"
  then have "face_distance encs e \<noteq> []"
    by (simp add: face_distance_def)
  from argmin_first_min [OF this]
  show "\<exists>b<length encs. argmin (face_distance encs e) = Inr b \<and>
         (\<forall>j<length encs. face_distance encs e ! b \<le> face_distance encs e ! j) \<and>
         (\<forall>j<b. face_distance encs e ! b < face_distance encs e ! j)"
    by (simp add: face_distance_def)
qed

lemma euclid_1d: "euclid [a] [b] = \<bar>a - b\<bar>"
  by (simp add: euclid_def)

text \<open>
  C8, witness: with the gallery \<open>[[1], [0]]\<close> and the probe \<open>[0]\<close> entry 1 is the strict
  minimum; with \<open>[[1], [0], [0]]\<close> entries 1 and 2 tie.
\<close>

theorem matcher_selects_first_minimum_witness:
  "(1::nat) < length [[1], [0::real]] \<and>
   argmin (face_distance [[1], [0]] [0]) = Inr 1 \<and>
   [[1], [0::real], [0]] \<noteq> [] \<and>
   (\<exists>b<length [[1], [0::real], [0]]. argmin (face_distance [[1], [0], [0]] [0]) = Inr b \<and>
       (\<forall>j<b. face_distance [[1], [0], [0]] [0] ! b < face_distance [[1], [0], [0]] [0] ! j))"
proof -
  have h1: "(1::nat) < length [[1], [0::real]]" by simp
  have h2: "\<forall>j<length [[1], [0::real]]. j \<noteq> 1 \<longrightarrow>
       face_distance [[1], [0]] [0] ! 1 < face_distance [[1], [0]] [0] ! j"
    by (auto simp: face_distance_def euclid_1d less_Suc_eq numeral_2_eq_2)
  have h3: "[[1], [0::real], [0]] \<noteq> []" by simp
  from matcher_selects_first_minimum [of 1 "[[1], [0]]" "[0]"] h1 h2
  have c1: "argmin (face_distance [[1], [0]] [0]) = Inr 1" by blast
  from matcher_selects_first_minimum [of 0 "[[1], [0], [0]]" "[0]"] h3
  have c2: "\<exists>b<length [[1], [0::real], [0]]. argmin (face_distance [[1], [0], [0]] [0]) = Inr b \<and>
       (\<forall>j<b. face_distance [[1], [0], [0]] [0] ! b < face_distance [[1], [0], [0]] [0] ! j)"
    by blast
  from h1 c1 h3 c2 show ?thesis by blast
qed




text \<open>
  C3 (as amended): on a non-empty gallery whose names align with its embeddings, the
  labelling pass finds an entry of minimum distance and reports its name only when that
  distance is below the tolerance; otherwise the label is \<open>Unknown\<close>.
\<close>

theorem label_is_thresholded:
  assumes "known_face_encodings r \<noteq> []"
    and "length (known_face_names r) = length (known_face_encodings r)"
  shows "\<exists>b<length (known_face_encodings r).
           argmin (face_distance (known_face_encodings r) (encoding f)) = Inr b \<and>
           (\<forall>j<length (known_face_encodings r).
               face_distance (known_face_encodings r) (encoding f) ! b
                 \<le> face_distance (known_face_encodings r) (encoding f) ! j) \<and>
           face_name r tolerance f =
             Inr (if face_distance (known_face_encodings r) (encoding f) ! b < tolerance
                  then known_face_names r ! b else ''Unknown'')"
proof -
  let ?ds = "face_distance (known_face_encodings r) (encoding f)"
  have len: "length ?ds = length (known_face_encodings r)"
    by (simp add: face_distance_def)
  from assms(1) have "?ds \<noteq> []" by (simp add: face_distance_def)
  from argmin_first_min [OF this] obtain b where
    b: "b < length ?ds" "argmin ?ds = Inr b" "\<forall>k<length ?ds. ?ds ! b \<le> ?ds ! k"
    by blast
  from b(1) len assms(2) have "b < length (known_face_names r)" by simp
  with b(2) have "face_name r tolerance f =
      Inr (if ?ds ! b < tolerance then known_face_names r ! b else ''Unknown'')"
    by (simp add: face_name_def)
  with b len show ?thesis by auto
qed

text \<open>C3 (as amended), witness: a probe at distance 0.3 from alice is labelled alice.\<close>

theorem label_is_thresholded_witness:
  "known_face_encodings alice_only \<noteq> [] \<and>
   length (known_face_names alice_only) = length (known_face_encodings alice_only) \<and>
   face_name alice_only default_tolerance (probe (3 / 10) (3 / 10) []) = Inr ''alice''"
proof -
  have h1: "known_face_encodings alice_only \<noteq> []" by (simp add: alice_only_def)
  have h2: "length (known_face_names alice_only) = length (known_face_encodings alice_only)"
    by (simp add: alice_only_def)
  from label_is_thresholded [OF h1 h2, of "probe (3 / 10) (3 / 10) []" default_tolerance]
  have "face_name alice_only default_tolerance (probe (3 / 10) (3 / 10) []) = Inr ''alice''"
    by (simp add: alice_only_def probe_def face_distance_def euclid_1d default_tolerance_value)
  with h1 h2 show ?thesis by blast
qed

text \<open>
  C3 (as stated) fails: the labelling pass applies a threshold of its own. With alice as the
  only entry and a probe at distance 0.7, entry 0 is the best candidate, and the label is not
  its name.
\<close>

theorem label_unconditional_counterexample:
  "argmin (face_distance (known_face_encodings alice_only) (encoding (probe (7 / 10) (7 / 10) [])))
     = Inr 0 \<and>
   face_name alice_only default_tolerance (probe (7 / 10) (7 / 10) [])
     \<noteq> Inr (known_face_names alice_only ! 0)"
  by (simp add: alice_only_def probe_def face_name_def face_distance_def euclid_1d argmin_def
      default_tolerance_value)

section \<open>Effects of the gate and of each loop\<close>

lemma callback_fields [simp]:
  "reads (callback rq ev w) = reads w"
  "slept (callback rq ev w) = slept w"
  "photos (callback rq ev w) = photos w"
  "marked (callback rq ev w) = marked w"
  "callbacks (callback rq ev w) = (if has_callback rq then callbacks w @ [ev] else callbacks w)"
  by (simp_all add: callback_def)

lemma sleep_fields [simp]:
  "reads (sleep n w) = reads w"
  "slept (sleep n w) = slept w + n"
  "photos (sleep n w) = photos w"
  "marked (sleep n w) = marked w"
  "callbacks (sleep n w) = callbacks w"
  by (simp_all add: sleep_def)

lemma check_face_ok:
  "check_face m rq a fr f w = (r, w') \<Longrightarrow> step_ok m rq a fr [f] w r w'"
  unfolding check_face_def step_ok_def accepts_def Let_def
  by (auto simp: snapshot_path_def record_of_def split: sum.splits bool.splits if_splits)

lemma step_ok_mono:
  "step_ok m rq a fr fs w r w' \<Longrightarrow> set fs \<subseteq> set fs' \<Longrightarrow> step_ok m rq a fr fs' w r w'"
  unfolding step_ok_def by blast

lemma step_ok_trans:
  "step_ok m rq a fr fs w None w1 \<Longrightarrow> step_ok m rq a fr fs w1 r w'
     \<Longrightarrow> step_ok m rq a fr fs w r w'"
  unfolding step_ok_def by auto

lemma faces_loop_ok:
  "faces_loop m rq a fr name fs w = (r, w') \<Longrightarrow> step_ok m rq a fr fs w r w'"
proof (induction fs arbitrary: w)
  case Nil
  then show ?case by (simp add: step_ok_def)
next
  case (Cons f fs)
  show ?case
  proof (cases "name = student_name rq")
    case False
    with Cons.prems have "faces_loop m rq a fr name fs w = (r, w')" by simp
    then have "step_ok m rq a fr fs w r w'" by (rule Cons.IH)
    then show ?thesis by (rule step_ok_mono) auto
  next
    case True
    obtain r1 w1 where c: "check_face m rq a fr f w = (r1, w1)"
      by (cases "check_face m rq a fr f w")
    then have "step_ok m rq a fr [f] w r1 w1" by (rule check_face_ok)
    then have ok1: "step_ok m rq a fr (f # fs) w r1 w1" by (rule step_ok_mono) auto
    show ?thesis
    proof (cases r1)
      case None
      with Cons.prems True c have "faces_loop m rq a fr name fs w1 = (r, w')" by simp
      then have "step_ok m rq a fr fs w1 r w'" by (rule Cons.IH)
      then have "step_ok m rq a fr (f # fs) w1 r w'" by (rule step_ok_mono) auto
      with ok1 None show ?thesis by (auto intro: step_ok_trans)
    next
      case (Some out)
      with Cons.prems True c have "r = r1" "w' = w1" by simp_all
      with ok1 show ?thesis by simp
    qed
  qed
qed

lemma names_loop_ok:
  "names_loop m rq a fr names w = (r, w') \<Longrightarrow> step_ok m rq a fr (faces fr) w r w'"
proof (induction names arbitrary: w)
  case Nil
  then show ?case by (simp add: step_ok_def)
next
  case (Cons name names)
  show ?case
  proof (cases "name = student_name rq")
    case False
    with Cons show ?thesis by simp
  next
    case True
    obtain r1 w1 where c: "faces_loop m rq a fr name (faces fr) w = (r1, w1)"
      by (cases "faces_loop m rq a fr name (faces fr) w")
    then have ok1: "step_ok m rq a fr (faces fr) w r1 w1" by (rule faces_loop_ok)
    show ?thesis
    proof (cases r1)
      case None
      with Cons.prems True c have "names_loop m rq a fr names w1 = (r, w')" by simp
      then have "step_ok m rq a fr (faces fr) w1 r w'" by (rule Cons.IH)
      with ok1 None show ?thesis by (auto intro: step_ok_trans)
    next
      case (Some out)
      with Cons.prems True c have "r = r1" "w' = w1" by simp_all
      with ok1 show ?thesis by simp
    qed
  qed
qed

lemma names_loop_no_match:
  "student_name rq \<notin> set names \<Longrightarrow> names_loop m rq a fr names w = (None, w)"
  by (induction names) auto

lemma one_attempt_reads:
  "one_attempt m cam rq a w = (r, w') \<Longrightarrow> reads w' = Suc (reads w)"
  unfolding one_attempt_def Let_def
  by (auto split: option.splits sum.splits prod.splits dest!: names_loop_ok simp: step_ok_def)

lemma one_attempt_capture:
  "one_attempt m cam rq a w = (r, w') \<Longrightarrow> read_results cam (reads w) = None \<Longrightarrow>
     r = Some (Returned False capture_msg) \<and>
     (has_callback rq \<longrightarrow> callbacks w' = callbacks w @ [(False, capture_msg)]) \<and>
     slept w' = slept w \<and> photos w' = photos w \<and> marked w' = marked w"
  unfolding one_attempt_def Let_def by auto

lemma one_attempt_ok:
  assumes "one_attempt m cam rq (reads w) w = (r, w')"
  shows "run_ok m cam rq w r w'"
proof (cases "read_results cam (reads w)")
  case None
  with assms show ?thesis by (auto simp: one_attempt_def run_ok_def)
next
  case (Some fr)
  show ?thesis
  proof (cases "detect_known_faces (recognizer m) fr default_tolerance")
    case (Inl e)
    with Some assms show ?thesis by (auto simp: one_attempt_def run_ok_def)
  next
    case (Inr p)
    obtain locs names where p: "p = (locs, names)" by (cases p)
    let ?w1 = "w\<lparr>reads := Suc (reads w)\<rparr>"
    from assms Some Inr p have "names_loop m rq (reads w) fr names ?w1 = (r, w')"
      by (simp add: one_attempt_def)
    then have "step_ok m rq (reads w) fr (faces fr) ?w1 r w'" by (rule names_loop_ok)
    with Some show ?thesis unfolding step_ok_def run_ok_def by auto
  qed
qed

lemma run_ok_trans:
  "run_ok m cam rq w None w1 \<Longrightarrow> run_ok m cam rq w1 r w' \<Longrightarrow> run_ok m cam rq w r w'"
  unfolding run_ok_def by auto

lemma attempts_loop_ok:
  "attempts_loop m cam rq [a..<n] w = (r, w') \<Longrightarrow> reads w = a \<Longrightarrow> run_ok m cam rq w r w'"
proof (induction "n - a" arbitrary: a w)
  case 0
  then show ?case by (simp add: run_ok_def)
next
  case (Suc d)
  then have lt: "a < n" by simp
  then have upt: "[a..<n] = a # [Suc a..<n]" by (rule upt_conv_Cons)
  obtain r1 w1 where c: "one_attempt m cam rq a w = (r1, w1)"
    by (cases "one_attempt m cam rq a w")
  with Suc.prems(2) have ok1: "run_ok m cam rq w r1 w1" by (auto intro: one_attempt_ok)
  from c have rd: "reads w1 = Suc (reads w)" by (rule one_attempt_reads)
  show ?case
  proof (cases r1)
    case None
    with Suc.prems(1) upt c have h1: "attempts_loop m cam rq [Suc a..<n] w1 = (r, w')" by simp
    from Suc.hyps(2) have h2: "d = n - Suc a" by simp
    from rd Suc.prems(2) have h3: "reads w1 = Suc a" by simp
    have "run_ok m cam rq w1 r w'" by (rule Suc.hyps(1) [OF h2 h1 h3])
    with ok1 None show ?thesis by (auto intro: run_ok_trans)
  next
    case (Some out)
    with Suc.prems(1) upt c have "r = r1" "w' = w1" by simp_all
    with ok1 show ?thesis by simp
  qed
qed

lemma attempts_loop_capture:
  "attempts_loop m cam rq as w = (r, w') \<Longrightarrow>
     reads w \<le> reads w' \<and> reads w' \<le> reads w + length as \<and>
     (\<forall>k. reads w \<le> k \<and> k < reads w' \<and> read_results cam k = None \<longrightarrow>
        r = Some (Returned False capture_msg) \<and> reads w' = Suc k \<and>
        (has_callback rq \<longrightarrow> callbacks w' \<noteq> [] \<and> last (callbacks w') = (False, capture_msg)))"
proof (induction as arbitrary: w)
  case Nil
  then show ?case by simp
next
  case (Cons a as)
  obtain r1 w1 where c: "one_attempt m cam rq a w = (r1, w1)" by (cases "one_attempt m cam rq a w")
  from c have rd: "reads w1 = Suc (reads w)" by (rule one_attempt_reads)
  show ?case
  proof (cases r1)
    case None
    with Cons.prems c have "attempts_loop m cam rq as w1 = (r, w')" by simp
    from Cons.IH [OF this] have ih:
      "reads w1 \<le> reads w'" "reads w' \<le> reads w1 + length as"
      "\<forall>k. reads w1 \<le> k \<and> k < reads w' \<and> read_results cam k = None \<longrightarrow>
        r = Some (Returned False capture_msg) \<and> reads w' = Suc k \<and>
        (has_callback rq \<longrightarrow> callbacks w' \<noteq> [] \<and> last (callbacks w') = (False, capture_msg))"
      by simp_all
    have ok: "read_results cam (reads w) \<noteq> None"
    proof
      assume "read_results cam (reads w) = None"
      with c have "r1 = Some (Returned False capture_msg)" by (auto dest: one_attempt_capture)
      with None show False by simp
    qed
    have "\<forall>k. reads w \<le> k \<and> k < reads w' \<and> read_results cam k = None \<longrightarrow> reads w1 \<le> k"
    proof (intro allI impI)
      fix k assume k: "reads w \<le> k \<and> k < reads w' \<and> read_results cam k = None"
      with ok have "k \<noteq> reads w" by auto
      with k rd show "reads w1 \<le> k" by simp
    qed
    with ih rd show ?thesis by auto
  next
    case (Some out)
    with Cons.prems c have eq: "r = r1" "w' = w1" by simp_all
    have "\<forall>k. reads w \<le> k \<and> k < reads w' \<and> read_results cam k = None \<longrightarrow>
        r = Some (Returned False capture_msg) \<and> reads w' = Suc k \<and>
        (has_callback rq \<longrightarrow> callbacks w' \<noteq> [] \<and> last (callbacks w') = (False, capture_msg))"
    proof (intro allI impI)
      fix k assume k: "reads w \<le> k \<and> k < reads w' \<and> read_results cam k = None"
      with eq rd have "k = reads w" by simp
      with k c eq rd show "r = Some (Returned False capture_msg) \<and> reads w' = Suc k \<and>
        (has_callback rq \<longrightarrow> callbacks w' \<noteq> [] \<and> last (callbacks w') = (False, capture_msg))"
        by (auto dest: one_attempt_capture)
    qed
    with eq rd show ?thesis by simp
  qed
qed

lemma one_attempt_no_match:
  assumes "read_results cam (reads w) = Some fr"
    and "detect_known_faces (recognizer m) fr default_tolerance = Inr (locs, names)"
    and "student_name rq \<notin> set names"
  shows "one_attempt m cam rq a w = (None, w\<lparr>reads := Suc (reads w)\<rparr>)"
  using assms by (simp add: one_attempt_def names_loop_no_match)

lemma attempts_loop_no_match:
  "(\<forall>k. reads w \<le> k \<and> k < reads w + length as \<longrightarrow>
      (\<exists>fr locs names. read_results cam k = Some fr \<and>
          detect_known_faces (recognizer m) fr default_tolerance = Inr (locs, names) \<and>
          student_name rq \<notin> set names)) \<Longrightarrow>
   attempts_loop m cam rq as w = (None, w\<lparr>reads := reads w + length as\<rparr>)"
proof (induction as arbitrary: w)
  case Nil
  then show ?case by simp
next
  case (Cons a as)
  from Cons.prems obtain fr locs names where f: "read_results cam (reads w) = Some fr"
    "detect_known_faces (recognizer m) fr default_tolerance = Inr (locs, names)"
    "student_name rq \<notin> set names"
    by (metis le_refl length_Cons less_add_Suc2 add_Suc_right less_Suc_eq_le le_add1)
  then have one: "one_attempt m cam rq a w = (None, w\<lparr>reads := Suc (reads w)\<rparr>)"
    by (rule one_attempt_no_match)
  let ?w1 = "w\<lparr>reads := Suc (reads w)\<rparr>"
  have "attempts_loop m cam rq as ?w1 = (None, ?w1\<lparr>reads := reads ?w1 + length as\<rparr>)"
  proof (rule Cons.IH, intro allI impI)
    fix k assume "reads ?w1 \<le> k \<and> k < reads ?w1 + length as"
    then have "reads w \<le> k \<and> k < reads w + length (a # as)" by simp
    with Cons.prems show "\<exists>fr locs names. read_results cam k = Some fr \<and>
          detect_known_faces (recognizer m) fr default_tolerance = Inr (locs, names) \<and>
          student_name rq \<notin> set names" by blast
  qed
  with one show ?case by simp
qed

section \<open>Runs\<close>

lemmas run_defs = detect_and_mark_def one_attempt_def detect_known_faces_def face_name_def
  check_face_def eyes_not_frontal_def callback_def sleep_def confidence_values
  face_distance_def euclid_1d argmin_def default_tolerance_value min_confidence_def fresh_def
  gallery2_def frontal_def turned_def cam_of_def manager_def alice_rq_def shot_def probe_def
  Let_def

lemma upt3: "[0..<3] = [0, 1, 2]"
  by (simp add: upt_rec)

lemma run_pose_then_threshold:
  "detect_and_mark
     (manager gallery2
        [shot 1 [probe (1 / 2) (1 / 2) [turned]], shot 2 [probe (1 / 2) (1 / 2) [frontal]]] 3)
     alice_rq fresh =
   (Returned True ''Attendance marked for alice (Confidence: 50% | Attempt 2)'',
    \<lparr>reads = 2,
     callbacks =
       [(False, ''Face not frontal enough (Attempt 1/3). Please adjust position.''),
        (True, ''Attendance marked for alice (Confidence: 50% | Attempt 2)'')],
     slept = 0,
     photos = [(''attendance_photos/42_20240101_090000.jpg'', 2)],
     marked =
       [\<lparr>ar_student_id = ''42'', ar_student_name = ''alice'', ar_session_id = None,
         ar_photo_path = ''attendance_photos/42_20240101_090000.jpg'', ar_confidence = 50\<rparr>]\<rparr>)"
  by (simp add: run_defs upt3 success_msg_def pose_msg_def str_nat.simps str_int_def)

text \<open>
  C2: with an opened camera, if each of the first \<open>max_retries\<close> reads succeeds, its
  frame is labelled, and no label equals the claimed name, the run reads exactly
  \<open>max_retries\<close> frames and returns the not-recognized failure; the message carries no
  number, nothing is slept, written or recorded.
\<close>

theorem not_recognized_after_max_retries:
  assumes "cap m = Some cam" and "is_opened cam"
    and "\<forall>k<max_retries m. \<exists>fr locs names. read_results cam k = Some fr \<and>
           detect_known_faces (recognizer m) fr default_tolerance = Inr (locs, names) \<and>
           student_name rq \<notin> set names"
  shows "detect_and_mark m rq fresh =
           (Returned False ''Face not recognized after maximum retries.'',
            \<lparr>reads = max_retries m,
             callbacks =
               (if has_callback rq
                then [(False, ''Face not recognized after maximum retries.'')] else []),
             slept = 0, photos = [], marked = []\<rparr>)"
proof -
  have "attempts_loop m cam rq [0..<max_retries m] fresh =
          (None, fresh\<lparr>reads := reads fresh + length [0..<max_retries m]\<rparr>)"
    by (rule attempts_loop_no_match) (use assms(3) in \<open>simp add: fresh_def\<close>)
  with assms(1,2) show ?thesis
    by (simp add: detect_and_mark_def fresh_def callback_def not_recognized_msg_def)
qed

text \<open>C2, witness: three frames that each show bob, while alice is claimed.\<close>

theorem not_recognized_after_max_retries_witness:
  "cap (manager gallery2 (replicate 3 (shot 1 [probe 10 10 [frontal]])) 3)
     = Some (cam_of (replicate 3 (shot 1 [probe 10 10 [frontal]]))) \<and>
   is_opened (cam_of (replicate 3 (shot 1 [probe 10 10 [frontal]]))) \<and>
   detect_and_mark (manager gallery2 (replicate 3 (shot 1 [probe 10 10 [frontal]])) 3)
       alice_rq fresh =
     (Returned False ''Face not recognized after maximum retries.'',
      \<lparr>reads = 3, callbacks = [(False, ''Face not recognized after maximum retries.'')],
       slept = 0, photos = [], marked = []\<rparr>)"
proof -
  let ?fs = "replicate 3 (shot 1 [probe 10 10 [frontal]])"
  have h1: "cap (manager gallery2 ?fs 3) = Some (cam_of ?fs)"
    by (simp add: manager_def)
  have h2: "is_opened (cam_of ?fs)"
    by (simp add: cam_of_def)
  have h3: "\<forall>k<max_retries (manager gallery2 ?fs 3).
      \<exists>fr locs names.
        read_results (cam_of ?fs) k = Some fr \<and>
        detect_known_faces (recognizer (manager gallery2 ?fs 3)) fr default_tolerance
          = Inr (locs, names) \<and>
        student_name alice_rq \<notin> set names"
    by (simp add: run_defs)
  from not_recognized_after_max_retries [OF h1 h2 h3]
  have "detect_and_mark (manager gallery2 ?fs 3) alice_rq fresh =
     (Returned False ''Face not recognized after maximum retries.'',
      \<lparr>reads = 3, callbacks = [(False, ''Face not recognized after maximum retries.'')],
       slept = 0, photos = [], marked = []\<rparr>)"
    by (simp add: manager_def alice_rq_def)
  with h1 h2 show ?thesis by blast
qed

lemma capture_msg_distinct:
  "capture_msg \<noteq> not_recognized_msg"
  "capture_msg \<noteq> low_confidence_msg c"
  "capture_msg \<noteq> pose_msg a n"
  "capture_msg \<noteq> retry_msg c a n"
  "capture_msg \<noteq> success_msg name c a"
  "capture_msg \<noteq> not_started_msg"
  by (simp_all add: capture_msg_def not_recognized_msg_def low_confidence_msg_def pose_msg_def
      retry_msg_def success_msg_def not_started_msg_def)

text \<open>
  C5: with an opened camera, if a read that the run performs fails, the run returns the
  capture failure, that read is its last one (no attempt follows it), and the callback, when
  given, receives the same message last. The message differs from every recognition
  message: not recognized, low confidence, retry and pose.
\<close>

theorem capture_failure_is_terminal:
  assumes "cap m = Some cam" and "is_opened cam"
    and "detect_and_mark m rq fresh = (out, w')"
    and "k < reads w'" and "read_results cam k = None"
  shows "out = Returned False ''Failed to capture frame.'' \<and>
         reads w' = Suc k \<and> reads w' \<le> max_retries m \<and>
         (has_callback rq \<longrightarrow> last (callbacks w') = (False, ''Failed to capture frame.'')) \<and>
         ''Failed to capture frame.'' \<noteq> not_recognized_msg \<and>
         (\<forall>c. ''Failed to capture frame.'' \<noteq> low_confidence_msg c) \<and>
         (\<forall>c a n. ''Failed to capture frame.'' \<noteq> retry_msg c a n) \<and>
         (\<forall>a n. ''Failed to capture frame.'' \<noteq> pose_msg a n)"
proof -
  obtain r w1 where loop: "attempts_loop m cam rq [0..<max_retries m] fresh = (r, w1)"
    by (cases "attempts_loop m cam rq [0..<max_retries m] fresh")
  from attempts_loop_capture [OF loop] have
    bound: "reads w1 \<le> max_retries m" and
    fail: "\<forall>k. k < reads w1 \<and> read_results cam k = None \<longrightarrow>
        r = Some (Returned False capture_msg) \<and> reads w1 = Suc k \<and>
        (has_callback rq \<longrightarrow> callbacks w1 \<noteq> [] \<and> last (callbacks w1) = (False, capture_msg))"
    by (simp_all add: fresh_def)
  have rd: "reads w' = reads w1"
    using assms(1,2,3) loop by (cases r) (auto simp: detect_and_mark_def)
  with assms(4,5) fail have some: "r = Some (Returned False capture_msg)"
    and last: "reads w1 = Suc k"
      "has_callback rq \<longrightarrow> last (callbacks w1) = (False, capture_msg)"
    by auto
  from some assms(1,2,3) loop have "out = Returned False capture_msg" "w' = w1"
    by (auto simp: detect_and_mark_def)
  with last bound capture_msg_distinct show ?thesis
    by (simp add: capture_msg_def)
qed

text \<open>
  C5, witness: the camera delivers one frame, showing bob, and then fails; the run ends at
  the second read.
\<close>

theorem capture_failure_is_terminal_witness:
  "cap (manager gallery2 [shot 1 [probe 10 10 [frontal]]] 3)
     = Some (cam_of [shot 1 [probe 10 10 [frontal]]]) \<and>
   is_opened (cam_of [shot 1 [probe 10 10 [frontal]]]) \<and>
   read_results (cam_of [shot 1 [probe 10 10 [frontal]]]) 1 = None \<and>
   detect_and_mark (manager gallery2 [shot 1 [probe 10 10 [frontal]]] 3) alice_rq fresh =
     (Returned False ''Failed to capture frame.'',
      \<lparr>reads = 2, callbacks = [(False, ''Failed to capture frame.'')],
       slept = 0, photos = [], marked = []\<rparr>)"
proof -
  let ?fs = "[shot 1 [probe 10 10 [frontal]]]"
  let ?w = "\<lparr>reads = 2, callbacks = [(False, ''Failed to capture frame.'')],
       slept = 0, photos = [], marked = []\<rparr>"
  have h1: "cap (manager gallery2 ?fs 3) = Some (cam_of ?fs)"
    by (simp add: manager_def)
  have h2: "is_opened (cam_of ?fs)"
    by (simp add: cam_of_def)
  have h3: "detect_and_mark (manager gallery2 ?fs 3) alice_rq fresh =
      (Returned False ''Failed to capture frame.'', ?w)"
    by (simp add: run_defs upt3 capture_msg_def)
  have h4: "1 < reads ?w" by simp
  have h5: "read_results (cam_of ?fs) 1 = None"
    by (simp add: cam_of_def)
  from capture_failure_is_terminal [OF h1 h2 h3 h4 h5] h1 h2 h3 h5
  show ?thesis by simp
qed

lemma detect_and_mark_ok:
  assumes "detect_and_mark m rq fresh = (out, w')"
  shows "(\<exists>cam. cap m = Some cam \<and> run_ok m cam rq fresh (Some out) w') \<or>
         ((\<forall>msg. out \<noteq> Returned True msg) \<and> photos w' = [] \<and> marked w' = [])"
proof (cases "cap m")
  case None
  with assms show ?thesis by (auto simp: detect_and_mark_def fresh_def)
next
  case (Some cam)
  show ?thesis
  proof (cases "is_opened cam")
    case False
    with Some assms show ?thesis by (auto simp: detect_and_mark_def fresh_def)
  next
    case True
    obtain r w1 where loop: "attempts_loop m cam rq [0..<max_retries m] fresh = (r, w1)"
      by (cases "attempts_loop m cam rq [0..<max_retries m] fresh")
    have "reads fresh = 0" by (simp add: fresh_def)
    with loop have ok: "run_ok m cam rq fresh r w1" by (rule attempts_loop_ok)
    show ?thesis
    proof (cases r)
      case None
      with Some True loop assms have "out = Returned False not_recognized_msg"
        "w' = callback rq (False, not_recognized_msg) w1"
        by (auto simp: detect_and_mark_def)
      with ok None show ?thesis by (auto simp: run_ok_def fresh_def)
    next
      case (Some o1)
      with \<open>cap m = Some cam\<close> True loop assms have "out = o1" "w' = w1"
        by (auto simp: detect_and_mark_def)
      with ok Some \<open>cap m = Some cam\<close> show ?thesis by simp
    qed
  qed
qed

lemma check_face_at_threshold:
  assumes "argmin (face_distance (known_face_encodings (recognizer m)) (encoding_again f)) = Inr b"
    and "confidence_of (face_distance (known_face_encodings (recognizer m)) (encoding_again f) ! b)
           = Inr c"
    and "landmarks f = d # ds" and "eyes_not_frontal d = Inr False"
  shows "50 \<le> c \<Longrightarrow>
           check_face m rq a fr f w =
             (Some (Returned True (success_msg (student_name rq) c a)),
              callback rq (True, success_msg (student_name rq) c a)
                (w\<lparr>photos := photos w @
                     [(''attendance_photos/'' @ student_id rq @ ''_'' @ timestamp rq @ ''.jpg'',
                       image fr)],
                   marked := marked w @
                     [\<lparr>ar_student_id = student_id rq, ar_student_name = student_name rq,
                       ar_session_id = session_id rq,
                       ar_photo_path =
                         ''attendance_photos/'' @ student_id rq @ ''_'' @ timestamp rq @ ''.jpg'',
                       ar_confidence = c\<rparr>]\<rparr>))"
    and "c < 50 \<Longrightarrow>
           (\<forall>msg. fst (check_face m rq a fr f w) \<noteq> Some (Returned True msg)) \<and>
           photos (snd (check_face m rq a fr f w)) = photos w \<and>
           marked (snd (check_face m rq a fr f w)) = marked w"
    and "(\<exists>msg. fst (check_face m rq a fr f w) = Some (Returned True msg)) \<longleftrightarrow> 50 \<le> c"
  using assms by (auto simp: check_face_def Let_def min_confidence_def)

text \<open>
  C7: a run hands at most one record to the sink and writes as many snapshots as records;
  it records exactly when it returns success. The confidence recorded is then the one
  computed for a face of the last frame read, from that face's smallest distance to the
  gallery; that face passed the landmark test, the confidence is at least 50, the message
  carries it together with the number of the last attempt made (the run stops there), and
  the snapshot is that frame. For a face whose eye groups pass the landmark test, the gate
  accepts exactly when the confidence computed for it is at least 50, the threshold
  included: it then writes the snapshot, records this confidence and returns the success
  message with it; below 50 it writes and records nothing.
\<close>

theorem accepted_once_at_threshold:
  "(detect_and_mark m rq fresh = (out, w') \<longrightarrow>
      length (marked w') \<le> 1 \<and> length (photos w') = length (marked w') \<and>
      ((\<exists>msg. out = Returned True msg) \<longleftrightarrow> marked w' \<noteq> []) \<and>
      (\<forall>r\<in>set (marked w'). 50 \<le> ar_confidence r \<and>
          out = Returned True (success_msg (student_name rq) (ar_confidence r) (reads w' - 1)) \<and>
          (\<exists>cam fr f b. cap m = Some cam \<and> read_results cam (reads w' - 1) = Some fr \<and>
              f \<in> set (faces fr) \<and>
              argmin (face_distance (known_face_encodings (recognizer m)) (encoding_again f))
                = Inr b \<and>
              confidence_of
                (face_distance (known_face_encodings (recognizer m)) (encoding_again f) ! b)
                = Inr (ar_confidence r) \<and>
              landmarks f \<noteq> [] \<and> eyes_not_frontal (hd (landmarks f)) = Inr False \<and>
              photos w' =
                [(''attendance_photos/'' @ student_id rq @ ''_'' @ timestamp rq @ ''.jpg'',
                  image fr)] \<and>
              r = \<lparr>ar_student_id = student_id rq, ar_student_name = student_name rq,
                    ar_session_id = session_id rq,
                    ar_photo_path =
                      ''attendance_photos/'' @ student_id rq @ ''_'' @ timestamp rq @ ''.jpg'',
                    ar_confidence = ar_confidence r\<rparr>))) \<and>
   (argmin (face_distance (known_face_encodings (recognizer m)) (encoding_again f)) = Inr b \<and>
    confidence_of (face_distance (known_face_encodings (recognizer m)) (encoding_again f) ! b)
      = Inr c \<and>
    landmarks f = d # ds \<and> eyes_not_frontal d = Inr False \<longrightarrow>
      ((\<exists>msg. fst (check_face m rq a fr f w) = Some (Returned True msg)) \<longleftrightarrow> 50 \<le> c) \<and>
      (50 \<le> c \<longrightarrow>
         check_face m rq a fr f w =
           (Some (Returned True (success_msg (student_name rq) c a)),
            callback rq (True, success_msg (student_name rq) c a)
              (w\<lparr>photos := photos w @
                   [(''attendance_photos/'' @ student_id rq @ ''_'' @ timestamp rq @ ''.jpg'',
                     image fr)],
                 marked := marked w @
                   [\<lparr>ar_student_id = student_id rq, ar_student_name = student_name rq,
                     ar_session_id = session_id rq,
                     ar_photo_path =
                       ''attendance_photos/'' @ student_id rq @ ''_'' @ timestamp rq @ ''.jpg'',
                     ar_confidence = c\<rparr>]\<rparr>))) \<and>
      (c < 50 \<longrightarrow>
         photos (snd (check_face m rq a fr f w)) = photos w \<and>
         marked (snd (check_face m rq a fr f w)) = marked w))"
proof (rule conjI; rule impI)
  assume run: "detect_and_mark m rq fresh = (out, w')"
  from detect_and_mark_ok [OF run]
  have "(\<exists>cam c fr f. cap m = Some cam \<and> read_results cam (reads w' - 1) = Some fr \<and>
           f \<in> set (faces fr) \<and> accepts m f c \<and>
           out = Returned True (success_msg (student_name rq) c (reads w' - 1)) \<and>
           photos w' = [(snapshot_path rq, image fr)] \<and>
           marked w' = [record_of rq c]) \<or>
        ((\<forall>msg. out \<noteq> Returned True msg) \<and> photos w' = [] \<and> marked w' = [])"
    by (auto simp: run_ok_def fresh_def)
  then show "length (marked w') \<le> 1 \<and> length (photos w') = length (marked w') \<and>
      ((\<exists>msg. out = Returned True msg) \<longleftrightarrow> marked w' \<noteq> []) \<and>
      (\<forall>r\<in>set (marked w'). 50 \<le> ar_confidence r \<and>
          out = Returned True (success_msg (student_name rq) (ar_confidence r) (reads w' - 1)) \<and>
          (\<exists>cam fr f b. cap m = Some cam \<and> read_results cam (reads w' - 1) = Some fr \<and>
              f \<in> set (faces fr) \<and>
              argmin (face_distance (known_face_encodings (recognizer m)) (encoding_again f))
                = Inr b \<and>
              confidence_of
                (face_distance (known_face_encodings (recognizer m)) (encoding_again f) ! b)
                = Inr (ar_confidence r) \<and>
              landmarks f \<noteq> [] \<and> eyes_not_frontal (hd (landmarks f)) = Inr False \<and>
              photos w' =
                [(''attendance_photos/'' @ student_id rq @ ''_'' @ timestamp rq @ ''.jpg'',
                  image fr)] \<and>
              r = \<lparr>ar_student_id = student_id rq, ar_student_name = student_name rq,
                    ar_session_id = session_id rq,
                    ar_photo_path =
                      ''attendance_photos/'' @ student_id rq @ ''_'' @ timestamp rq @ ''.jpg'',
                    ar_confidence = ar_confidence r\<rparr>))"
  proof
    assume "\<exists>cam c fr f. cap m = Some cam \<and> read_results cam (reads w' - 1) = Some fr \<and>
           f \<in> set (faces fr) \<and> accepts m f c \<and>
           out = Returned True (success_msg (student_name rq) c (reads w' - 1)) \<and>
           photos w' = [(snapshot_path rq, image fr)] \<and>
           marked w' = [record_of rq c]"
    then obtain cam c fr f where acc: "cap m = Some cam"
      "read_results cam (reads w' - 1) = Some fr" "f \<in> set (faces fr)" "accepts m f c"
      "out = Returned True (success_msg (student_name rq) c (reads w' - 1))"
      "photos w' = [(snapshot_path rq, image fr)]" "marked w' = [record_of rq c]"
      by blast
    from acc(4) obtain b where
      b: "argmin (face_distance (known_face_encodings (recognizer m)) (encoding_again f)) = Inr b"
         "confidence_of
            (face_distance (known_face_encodings (recognizer m)) (encoding_again f) ! b) = Inr c"
         "landmarks f \<noteq> []" "eyes_not_frontal (hd (landmarks f)) = Inr False" "50 \<le> c"
      by (auto simp: accepts_def min_confidence_def)
    with acc show ?thesis
      by (auto simp: record_of_def snapshot_path_def)
  next
    assume "(\<forall>msg. out \<noteq> Returned True msg) \<and> photos w' = [] \<and> marked w' = []"
    then show ?thesis by simp
  qed
next
  assume h: "argmin (face_distance (known_face_encodings (recognizer m)) (encoding_again f)) = Inr b \<and>
    confidence_of (face_distance (known_face_encodings (recognizer m)) (encoding_again f) ! b)
      = Inr c \<and>
    landmarks f = d # ds \<and> eyes_not_frontal d = Inr False"
  then have h1: "argmin (face_distance (known_face_encodings (recognizer m)) (encoding_again f)) = Inr b"
    and h2: "confidence_of (face_distance (known_face_encodings (recognizer m)) (encoding_again f) ! b)
      = Inr c"
    and h3: "landmarks f = d # ds" and h4: "eyes_not_frontal d = Inr False"
    by simp_all
  from check_face_at_threshold [OF h1 h2 h3 h4, of rq a fr w]
  show "((\<exists>msg. fst (check_face m rq a fr f w) = Some (Returned True msg)) \<longleftrightarrow> 50 \<le> c) \<and>
      (50 \<le> c \<longrightarrow>
         check_face m rq a fr f w =
           (Some (Returned True (success_msg (student_name rq) c a)),
            callback rq (True, success_msg (student_name rq) c a)
              (w\<lparr>photos := photos w @
                   [(''attendance_photos/'' @ student_id rq @ ''_'' @ timestamp rq @ ''.jpg'',
                     image fr)],
                 marked := marked w @
                   [\<lparr>ar_student_id = student_id rq, ar_student_name = student_name rq,
                     ar_session_id = session_id rq,
                     ar_photo_path =
                       ''attendance_photos/'' @ student_id rq @ ''_'' @ timestamp rq @ ''.jpg'',
                     ar_confidence = c\<rparr>]\<rparr>))) \<and>
      (c < 50 \<longrightarrow>
         photos (snd (check_face m rq a fr f w)) = photos w \<and>
         marked (snd (check_face m rq a fr f w)) = marked w)"
    by blast
qed

text \<open>
  C7, witness: the first frame fails the pose check, the second has confidence exactly 50
  and is accepted on attempt 2, with one snapshot and one record.
\<close>

theorem accepted_once_at_threshold_witness:
  "detect_and_mark
     (manager gallery2
        [shot 1 [probe (1 / 2) (1 / 2) [turned]], shot 2 [probe (1 / 2) (1 / 2) [frontal]]] 3)
     alice_rq fresh =
   (Returned True ''Attendance marked for alice (Confidence: 50% | Attempt 2)'',
    \<lparr>reads = 2,
     callbacks =
       [(False, ''Face not frontal enough (Attempt 1/3). Please adjust position.''),
        (True, ''Attendance marked for alice (Confidence: 50% | Attempt 2)'')],
     slept = 0,
     photos = [(''attendance_photos/42_20240101_090000.jpg'', 2)],
     marked =
       [\<lparr>ar_student_id = ''42'', ar_student_name = ''alice'', ar_session_id = None,
         ar_photo_path = ''attendance_photos/42_20240101_090000.jpg'', ar_confidence = 50\<rparr>]\<rparr>) \<and>
   argmin (face_distance (known_face_encodings (recognizer
       (manager gallery2 [] 3))) (encoding_again (probe (1 / 2) (1 / 2) [frontal]))) = Inr 0 \<and>
   landmarks (probe (1 / 2) (1 / 2) [frontal]) = frontal # [] \<and>
   eyes_not_frontal frontal = Inr False \<and>
   confidence_of (face_distance (known_face_encodings (recognizer (manager gallery2 [] 3)))
       (encoding_again (probe (1 / 2) (1 / 2) [frontal])) ! 0) = Inr 50 \<and>
   (\<exists>msg. fst (check_face (manager gallery2 [] 3) alice_rq 1 (shot 2 [])
       (probe (1 / 2) (1 / 2) [frontal]) fresh) = Some (Returned True msg))"
proof -
  let ?m = "manager gallery2 [] 3"
  let ?f = "probe (1 / 2) (1 / 2) [frontal]"
  have h1: "argmin (face_distance (known_face_encodings (recognizer ?m)) (encoding_again ?f)) = Inr 0"
    by (simp add: run_defs)
  have h2: "landmarks ?f = frontal # []"
    by (simp add: probe_def)
  have h3: "eyes_not_frontal frontal = Inr False"
    by (simp add: eyes_not_frontal_def frontal_def)
  have h4: "confidence_of (face_distance (known_face_encodings (recognizer ?m))
       (encoding_again ?f) ! 0) = Inr 50"
    by (simp add: run_defs)
  from accepted_once_at_threshold [of ?m alice_rq _ _ ?f 0 50 frontal "[]" 1 "shot 2 []" fresh]
    h1 h2 h3 h4
  have "\<exists>msg. fst (check_face ?m alice_rq 1 (shot 2 []) ?f fresh) = Some (Returned True msg)"
    by simp
  with run_pose_then_threshold h1 h2 h3 h4 show ?thesis by simp
qed

section \<open>Pose failures, low confidence and several faces\<close>

lemma face_name_gallery_nonempty:
  "face_name r tol f = Inr name \<Longrightarrow> known_face_encodings r \<noteq> []"
  by (auto simp: face_name_def face_distance_def argmin_def)

lemma confidence_total: "\<bar>d\<bar> \<le> 2 ^ 1000 \<Longrightarrow> \<exists>c. confidence_of d = Inr c"
proof -
  assume "\<bar>d\<bar> \<le> 2 ^ 1000"
  then have "\<bar>d\<bar> \<le> pow2 1000" by (simp add: pow2_def)
  then have "\<not> float64_inf (float64_mul (float64_sub 1 d) 100)"
    by (rule scaled_finite)
  then show ?thesis by (simp add: confidence_of_def py_int_def)
qed

text \<open>
  C6 (as amended): take an attempt whose frame shows a single face, labelled with the
  claimed name, whose distances to the gallery are at most \<open>2 ^ 1000\<close> (so that the
  confidence computation does not overflow). If the landmark detector returns nothing for
  it, the attempt ends without any message. If the left-eye group is present with fewer
  than 6 points, or both eye groups are present and the right-eye group has fewer than 6
  points, the callback, when given, receives the pose message with the attempt number and
  the retry budget. In both cases nothing is slept, written or recorded, and the loop goes
  on to the next attempt.
\<close>

theorem pose_invalid_single_face:
  assumes "read_results cam (reads w) = Some fr" and "faces fr = [f]"
    and "face_name (recognizer m) default_tolerance f = Inr (student_name rq)"
    and "\<forall>x\<in>set (face_distance (known_face_encodings (recognizer m)) (encoding_again f)).
           \<bar>x\<bar> \<le> 2 ^ 1000"
  shows "(landmarks f = [] \<longrightarrow>
            one_attempt m cam rq a w = (None, w\<lparr>reads := Suc (reads w)\<rparr>)) \<and>
         (\<forall>d ds. landmarks f = d # ds \<and>
            ((\<exists>l. d ''left_eye'' = Some l \<and> length l < 6) \<or>
             (\<exists>l r. d ''left_eye'' = Some l \<and> d ''right_eye'' = Some r \<and> length r < 6)) \<longrightarrow>
            one_attempt m cam rq a w =
              (None,
               w\<lparr>reads := Suc (reads w),
                 callbacks :=
                   (if has_callback rq
                    then callbacks w @
                      [(False, ''Face not frontal enough (Attempt '' @ str_nat (a + 1) @ ''/''
                           @ str_nat (max_retries m) @ ''). Please adjust position.'')]
                    else callbacks w)\<rparr>))"
proof -
  from assms(3) have "known_face_encodings (recognizer m) \<noteq> []"
    by (rule face_name_gallery_nonempty)
  then have "face_distance (known_face_encodings (recognizer m)) (encoding_again f) \<noteq> []"
    by (simp add: face_distance_def)
  from argmin_first_min [OF this] obtain b where
    b: "argmin (face_distance (known_face_encodings (recognizer m)) (encoding_again f)) = Inr b"
    and "b < length (face_distance (known_face_encodings (recognizer m)) (encoding_again f))"
    by blast
  with assms(4) have
    "\<bar>face_distance (known_face_encodings (recognizer m)) (encoding_again f) ! b\<bar> \<le> 2 ^ 1000"
    by simp
  then obtain c where
    c: "confidence_of (face_distance (known_face_encodings (recognizer m)) (encoding_again f) ! b)
          = Inr c"
    using confidence_total by blast
  have names: "detect_known_faces (recognizer m) fr default_tolerance =
      Inr ([location f], [student_name rq])"
    using assms(2,3) by (simp add: detect_known_faces_def)
  have one: "one_attempt m cam rq a w =
      (case check_face m rq a fr f (w\<lparr>reads := Suc (reads w)\<rparr>) of
         (Some out, w') \<Rightarrow> (Some out, w') | (None, w') \<Rightarrow> (None, w'))"
    using assms(1,2) names by (simp add: one_attempt_def split: prod.splits option.splits)
  have empty: "landmarks f = [] \<Longrightarrow>
      check_face m rq a fr f (w\<lparr>reads := Suc (reads w)\<rparr>) = (None, w\<lparr>reads := Suc (reads w)\<rparr>)"
    using b c by (simp add: check_face_def)
  have short: "check_face m rq a fr f (w\<lparr>reads := Suc (reads w)\<rparr>) =
        (None, callback rq (False, pose_msg a (max_retries m)) (w\<lparr>reads := Suc (reads w)\<rparr>))"
    if "landmarks f = d # ds"
      and "(\<exists>l. d ''left_eye'' = Some l \<and> length l < 6) \<or>
           (\<exists>l r. d ''left_eye'' = Some l \<and> d ''right_eye'' = Some r \<and> length r < 6)"
    for d ds
  proof -
    from that(2) have "eyes_not_frontal d = Inr True"
      by (auto simp: eyes_not_frontal_def)
    with that(1) b c show ?thesis by (simp add: check_face_def)
  qed
  show ?thesis
  proof (intro conjI allI impI)
    assume "landmarks f = []"
    with one empty show "one_attempt m cam rq a w = (None, w\<lparr>reads := Suc (reads w)\<rparr>)"
      by simp
  next
    fix d ds
    assume "landmarks f = d # ds \<and>
            ((\<exists>l. d ''left_eye'' = Some l \<and> length l < 6) \<or>
             (\<exists>l r. d ''left_eye'' = Some l \<and> d ''right_eye'' = Some r \<and> length r < 6))"
    then have "check_face m rq a fr f (w\<lparr>reads := Suc (reads w)\<rparr>) =
        (None, callback rq (False, pose_msg a (max_retries m)) (w\<lparr>reads := Suc (reads w)\<rparr>))"
      using short by blast
    with one show "one_attempt m cam rq a w =
              (None,
               w\<lparr>reads := Suc (reads w),
                 callbacks :=
                   (if has_callback rq
                    then callbacks w @
                      [(False, ''Face not frontal enough (Attempt '' @ str_nat (a + 1) @ ''/''
                           @ str_nat (max_retries m) @ ''). Please adjust position.'')]
                    else callbacks w)\<rparr>)"
      by (simp add: callback_def pose_msg_def)
  qed
qed

text \<open>C6 (as amended), witness: one face of alice whose right eye has 5 points.\<close>

theorem pose_invalid_single_face_witness:
  "read_results (cam_of [shot 1 [probe (1 / 4) (1 / 4) [turned]]]) (reads fresh)
     = Some (shot 1 [probe (1 / 4) (1 / 4) [turned]]) \<and>
   faces (shot 1 [probe (1 / 4) (1 / 4) [turned]]) = [probe (1 / 4) (1 / 4) [turned]] \<and>
   face_name (recognizer (manager gallery2 [shot 1 [probe (1 / 4) (1 / 4) [turned]]] 3))
     default_tolerance (probe (1 / 4) (1 / 4) [turned]) = Inr (student_name alice_rq) \<and>
   landmarks (probe (1 / 4) (1 / 4) [turned]) = turned # [] \<and>
   (\<exists>l r. turned ''left_eye'' = Some l \<and> turned ''right_eye'' = Some r \<and> length r < 6) \<and>
   one_attempt (manager gallery2 [shot 1 [probe (1 / 4) (1 / 4) [turned]]] 3)
       (cam_of [shot 1 [probe (1 / 4) (1 / 4) [turned]]]) alice_rq 0 fresh =
     (None,
      \<lparr>reads = 1,
       callbacks = [(False, ''Face not frontal enough (Attempt 1/3). Please adjust position.'')],
       slept = 0, photos = [], marked = []\<rparr>)"
proof -
  let ?f = "probe (1 / 4) (1 / 4) [turned]"
  let ?fr = "shot 1 [?f]"
  let ?m = "manager gallery2 [?fr] 3"
  have h1: "read_results (cam_of [?fr]) (reads fresh) = Some ?fr"
    by (simp add: cam_of_def fresh_def)
  have h2: "faces ?fr = [?f]"
    by (simp add: shot_def)
  have h3: "face_name (recognizer ?m) default_tolerance ?f = Inr (student_name alice_rq)"
    by (simp add: run_defs)
  have h4: "landmarks ?f = turned # []"
    by (simp add: probe_def)
  have h5: "\<exists>l r. turned ''left_eye'' = Some l \<and> turned ''right_eye'' = Some r \<and> length r < 6"
    by (simp add: turned_def)
  have h6: "\<forall>x\<in>set (face_distance (known_face_encodings (recognizer ?m)) (encoding_again ?f)).
           \<bar>x\<bar> \<le> 2 ^ 1000"
    by (simp add: run_defs)
  from pose_invalid_single_face [OF h1 h2 h3 h6, of 0] h4 h5
  have "one_attempt ?m (cam_of [?fr]) alice_rq 0 fresh =
      (None,
       fresh\<lparr>reads := Suc (reads fresh),
         callbacks :=
           (if has_callback alice_rq
            then callbacks fresh @
              [(False, ''Face not frontal enough (Attempt '' @ str_nat (0 + 1) @ ''/''
                   @ str_nat (max_retries ?m) @ ''). Please adjust position.'')]
            else callbacks fresh)\<rparr>)"
    by blast
  then have "one_attempt ?m (cam_of [?fr]) alice_rq 0 fresh =
     (None,
      \<lparr>reads = 1,
       callbacks = [(False, ''Face not frontal enough (Attempt 1/3). Please adjust position.'')],
       slept = 0, photos = [], marked = []\<rparr>)"
    by (simp add: fresh_def alice_rq_def manager_def str_nat.simps)
  with h1 h2 h3 h4 h5 show ?thesis by blast
qed

text \<open>
  C6 (as stated) fails: for a face of alice on which no landmarks are found, with a callback
  given, the attempt ends without any message.
\<close>

theorem missing_landmarks_counterexample:
  "has_callback alice_rq \<and>
   faces (shot 1 [probe (1 / 4) (1 / 4) []]) = [probe (1 / 4) (1 / 4) []] \<and>
   face_name gallery2 default_tolerance (probe (1 / 4) (1 / 4) []) = Inr ''alice'' \<and>
   landmarks (probe (1 / 4) (1 / 4) []) = [] \<and>
   one_attempt (manager gallery2 [shot 1 [probe (1 / 4) (1 / 4) []]] 3)
       (cam_of [shot 1 [probe (1 / 4) (1 / 4) []]]) alice_rq 0 fresh =
     (None, \<lparr>reads = 1, callbacks = [], slept = 0, photos = [], marked = []\<rparr>)"
  by (simp add: run_defs)

text \<open>
  C4, the code at a frame with two faces: alice's face has confidence 43 and two attempts
  remain; the run sleeps one second and then, within the same attempt, gates the face
  labelled bob and marks alice present with bob's confidence 87. It does not advance to the
  next attempt.
\<close>

theorem low_confidence_then_other_face:
  "detect_known_faces gallery2
     (shot 1 [probe (9 / 16) (9 / 16) [frontal], probe (81 / 8) (81 / 8) [frontal]])
     default_tolerance
     = Inr ([(0, 0, 0, 0), (0, 0, 0, 0)], [''alice'', ''bob'']) \<and>
   detect_and_mark
     (manager gallery2
        [shot 1 [probe (9 / 16) (9 / 16) [frontal], probe (81 / 8) (81 / 8) [frontal]]] 3)
     alice_rq fresh =
   (Returned True ''Attendance marked for alice (Confidence: 87% | Attempt 1)'',
    \<lparr>reads = 1,
     callbacks =
       [(False, ''Confidence too low (43%). Retrying... (2/3)''),
        (True, ''Attendance marked for alice (Confidence: 87% | Attempt 1)'')],
     slept = 1,
     photos = [(''attendance_photos/42_20240101_090000.jpg'', 1)],
     marked =
       [\<lparr>ar_student_id = ''42'', ar_student_name = ''alice'', ar_session_id = None,
         ar_photo_path = ''attendance_photos/42_20240101_090000.jpg'', ar_confidence = 87\<rparr>]\<rparr>)"
  by (simp add: run_defs upt3 success_msg_def retry_msg_def str_nat.simps str_int_def)

lemma faces_loop_every_face:
  "faces_loop m rq a fr (student_name rq) fs w = gate_every_face m rq a fr fs w"
  by (induction fs arbitrary: w) (auto split: prod.splits option.splits)

lemma names_loop_rounds:
  "names_loop m rq a fr names w = gate_rounds m rq a fr (count_list names (student_name rq)) w"
  by (induction names arbitrary: w)
     (auto simp: faces_loop_every_face split: prod.splits option.splits)

text \<open>
  C10: the loop over the names runs, for each label equal to the claimed name, the gate over
  every face of the frame in index order; the guard of the inner loop, on the name of the
  enclosing loop, excludes no face. So a run can be accepted on a face with another label:
  with faces labelled bob and alice, in this order, alice is marked present with confidence
  100, the one of bob's face, while her own face has confidence 75.
\<close>

theorem gate_ignores_own_labels:
  "names_loop m rq a fr names w =
     gate_rounds m rq a fr (count_list names (student_name rq)) w \<and>
   faces_loop m rq a fr (student_name rq) fs w = gate_every_face m rq a fr fs w \<and>
   detect_known_faces gallery2
     (shot 1 [probe 10 10 [frontal], probe (1 / 4) (1 / 4) [frontal]]) default_tolerance
     = Inr ([(0, 0, 0, 0), (0, 0, 0, 0)], [''bob'', ''alice'']) \<and>
   confidence_of (hd (face_distance [[0]] (encoding_again (probe (1 / 4) (1 / 4) [frontal]))))
     = Inr 75 \<and>
   detect_and_mark
     (manager gallery2 [shot 1 [probe 10 10 [frontal], probe (1 / 4) (1 / 4) [frontal]]] 3)
     alice_rq fresh =
   (Returned True ''Attendance marked for alice (Confidence: 100% | Attempt 1)'',
    \<lparr>reads = 1,
     callbacks = [(True, ''Attendance marked for alice (Confidence: 100% | Attempt 1)'')],
     slept = 0,
     photos = [(''attendance_photos/42_20240101_090000.jpg'', 1)],
     marked =
       [\<lparr>ar_student_id = ''42'', ar_student_name = ''alice'', ar_session_id = None,
         ar_photo_path = ''attendance_photos/42_20240101_090000.jpg'', ar_confidence = 100\<rparr>]\<rparr>)"
proof (intro conjI)
  show "names_loop m rq a fr names w =
     gate_rounds m rq a fr (count_list names (student_name rq)) w"
    by (rule names_loop_rounds)
  show "faces_loop m rq a fr (student_name rq) fs w = gate_every_face m rq a fr fs w"
    by (rule faces_loop_every_face)
  show "detect_known_faces gallery2
     (shot 1 [probe 10 10 [frontal], probe (1 / 4) (1 / 4) [frontal]]) default_tolerance
     = Inr ([(0, 0, 0, 0), (0, 0, 0, 0)], [''bob'', ''alice''])"
    by (simp add: run_defs)
  show "confidence_of (hd (face_distance [[0]] (encoding_again (probe (1 / 4) (1 / 4) [frontal]))))
     = Inr 75"
    by (simp add: run_defs)
  show "detect_and_mark
     (manager gallery2 [shot 1 [probe 10 10 [frontal], probe (1 / 4) (1 / 4) [frontal]]] 3)
     alice_rq fresh =
   (Returned True ''Attendance marked for alice (Confidence: 100% | Attempt 1)'',
    \<lparr>reads = 1,
     callbacks = [(True, ''Attendance marked for alice (Confidence: 100% | Attempt 1)'')],
     slept = 0,
     photos = [(''attendance_photos/42_20240101_090000.jpg'', 1)],
     marked =
       [\<lparr>ar_student_id = ''42'', ar_student_name = ''alice'', ar_session_id = None,
         ar_photo_path = ''attendance_photos/42_20240101_090000.jpg'', ar_confidence = 100\<rparr>]\<rparr>)"
    by (simp add: run_defs upt3 success_msg_def str_nat.simps str_int_def)
qed

text \<open>C10, witness: the labels bob and alice give one pass over both faces.\<close>

theorem gate_ignores_own_labels_witness:
  "names_loop (manager gallery2 [] 3) alice_rq 0
     (shot 1 [probe 10 10 [frontal], probe (1 / 4) (1 / 4) [frontal]]) [''bob'', ''alice''] fresh =
   gate_rounds (manager gallery2 [] 3) alice_rq 0
     (shot 1 [probe 10 10 [frontal], probe (1 / 4) (1 / 4) [frontal]]) 1 fresh"
proof -
  have c: "count_list [''bob'', ''alice''] (student_name alice_rq) = 1"
    by (simp add: alice_rq_def)
  from gate_ignores_own_labels [of "manager gallery2 [] 3" alice_rq 0
      "shot 1 [probe 10 10 [frontal], probe (1 / 4) (1 / 4) [frontal]]" "[''bob'', ''alice'']" fresh]
  have "names_loop (manager gallery2 [] 3) alice_rq 0
     (shot 1 [probe 10 10 [frontal], probe (1 / 4) (1 / 4) [frontal]]) [''bob'', ''alice''] fresh =
   gate_rounds (manager gallery2 [] 3) alice_rq 0
     (shot 1 [probe 10 10 [frontal], probe (1 / 4) (1 / 4) [frontal]])
     (count_list [''bob'', ''alice''] (student_name alice_rq)) fresh"
    by (rule conjunct1)
  then show ?thesis unfolding c .
qed

end
